theory Spec2Isabelle
  imports Complex_Main "HOL-Library.Sublist" "HOL-Library.Multiset"
begin

section \<open>Common conventions\<close>

text \<open>
  The development embeds \<^verbatim>\<open>rfsn_controller/llm_async.py\<close> and
  \<^verbatim>\<open>rfsn_controller/optimizations.py\<close>.

  \<^item> Python \<^verbatim>\<open>float\<close> values (timestamps, delays, temperatures, rates) are
    idealised as \<^typ>\<open>real\<close>: the rounding of IEEE doubles is not modelled. Where an
    operation of the code raises \<^verbatim>\<open>OverflowError\<close> instead of producing a double, the
    model raises it too (\<open>float_of_int\<close> and \<open>float_pow\<close> below).
  \<^item> Python \<^verbatim>\<open>int\<close> values are \<^typ>\<open>int\<close>.
  \<^item> Every reading of \<^verbatim>\<open>time.time()\<close> is an explicit argument of the function
    that performs it.
  \<^item> An exception that leaves a function is the \<open>Inl\<close> branch of its result.
\<close>

datatype py_error =
    RuntimeError string
  | TransportError string
  | ZeroDivisionError
  | ValueError string
  | TypeError string
  | UnicodeEncodeError
  | UnicodeDecodeError
  | BadGzipFile
  | OverflowError string
  | OSError string

text \<open>
  A call of a function that takes a \<^verbatim>\<open>threading.Lock\<close> has three possible outcomes for
  its caller: it returns a value, it raises an exception, or it has not returned because
  it waits for the lock.
\<close>

datatype ('e, 'a) outcome = Returns 'a | Raises 'e | Waits

text \<open>
  The largest finite double is \<open>2 ^ 1024 - 2 ^ 971\<close>; a number of magnitude
  \<open>2 ^ 1024 - 2 ^ 970\<close> or more has no double next to it (rounding to nearest would give
  \<open>2 ^ 1024\<close>). Converting such an \<^verbatim>\<open>int\<close> to \<^verbatim>\<open>float\<close>, as \<^verbatim>\<open>float - int\<close> does with its
  right operand, raises \<^verbatim>\<open>OverflowError\<close>.
\<close>

definition float_overflow :: "real \<Rightarrow> bool" where
  "float_overflow x = (2 ^ 1024 - 2 ^ 970 \<le> \<bar>x\<bar>)"

text \<open>
  \<^verbatim>\<open>x ** n\<close> for a double \<open>x\<close> and a non-negative \<^verbatim>\<open>int\<close> \<open>n\<close>: \<^verbatim>\<open>OverflowError\<close> when the
  power is beyond the doubles (a power too small for them is zero, silently).
\<close>

definition float_pow :: "real \<Rightarrow> nat \<Rightarrow> py_error + real" where
  "float_pow x n =
     (if float_overflow (x ^ n)
      then Inl (OverflowError ''Numerical result out of range'')
      else Inr (x ^ n))"

definition float_of_int :: "int \<Rightarrow> py_error + real" where
  "float_of_int i =
     (if float_overflow (real_of_int i)
      then Inl (OverflowError ''int too large to convert to float'')
      else Inr (real_of_int i))"

section \<open>Python strings and bytes\<close>

text \<open>
  A Python \<^verbatim>\<open>str\<close> is a sequence of code points (\<open>0 \<dots> 0x10FFFF\<close>, lone surrogates
  included); \<^verbatim>\<open>len\<close> counts code points. \<^verbatim>\<open>bytes\<close> is a sequence of numbers below 256.
\<close>

type_synonym pystr = "nat list"
type_synonym pybytes = "nat list"

definition ascii :: "string \<Rightarrow> pystr" where
  "ascii s = map of_char s"

subsection \<open>\<^verbatim>\<open>str.encode("utf-8")\<close> and \<^verbatim>\<open>bytes.decode("utf-8")\<close>\<close>

text \<open>
  The strict UTF-8 codec of Python: a surrogate code point (\<open>0xD800 \<dots> 0xDFFF\<close>) cannot be
  encoded; the decoder rejects stray continuation bytes, truncated and overlong
  sequences, encoded surrogates and values above \<open>0x10FFFF\<close>.
\<close>

definition utf8_encode_char :: "nat \<Rightarrow> pybytes option" where
  "utf8_encode_char c =
     (if c < 0x80 then Some [c]
      else if c < 0x800 then Some [0xC0 + c div 64, 0x80 + c mod 64]
      else if 0xD800 \<le> c \<and> c \<le> 0xDFFF then None
      else if c < 0x10000
      then Some [0xE0 + c div 4096, 0x80 + (c div 64) mod 64, 0x80 + c mod 64]
      else if c < 0x110000
      then Some [0xF0 + c div 262144, 0x80 + (c div 4096) mod 64,
                 0x80 + (c div 64) mod 64, 0x80 + c mod 64]
      else None)"

fun utf8_encode :: "pystr \<Rightarrow> pybytes option" where
  "utf8_encode [] = Some []"
| "utf8_encode (c # cs) =
     (case utf8_encode_char c of
        None \<Rightarrow> None
      | Some bs \<Rightarrow> (case utf8_encode cs of None \<Rightarrow> None | Some rest \<Rightarrow> Some (bs @ rest)))"

definition str_encode :: "pystr \<Rightarrow> py_error + pybytes" where
  "str_encode s = (case utf8_encode s of None \<Rightarrow> Inl UnicodeEncodeError | Some b \<Rightarrow> Inr b)"

definition continuation :: "nat \<Rightarrow> bool" where
  "continuation b = (0x80 \<le> b \<and> b \<le> 0xBF)"

fun utf8_decode :: "pybytes \<Rightarrow> pystr option" where
  "utf8_decode [] = Some []"
| "utf8_decode (b0 # bs) =
     (if b0 < 0x80 then map_option (Cons b0) (utf8_decode bs)
      else if 0xC2 \<le> b0 \<and> b0 \<le> 0xDF then
        (case bs of
           b1 # bs1 \<Rightarrow>
             if continuation b1
             then map_option (Cons ((b0 - 0xC0) * 64 + (b1 - 0x80))) (utf8_decode bs1)
             else None
         | _ \<Rightarrow> None)
      else if 0xE0 \<le> b0 \<and> b0 \<le> 0xEF then
        (case bs of
           b1 # b2 # bs2 \<Rightarrow>
             (let c = (b0 - 0xE0) * 4096 + (b1 - 0x80) * 64 + (b2 - 0x80)
              in if continuation b1 \<and> continuation b2 \<and> 0x800 \<le> c
                    \<and> \<not> (0xD800 \<le> c \<and> c \<le> 0xDFFF)
                 then map_option (Cons c) (utf8_decode bs2)
                 else None)
         | _ \<Rightarrow> None)
      else if 0xF0 \<le> b0 \<and> b0 \<le> 0xF4 then
        (case bs of
           b1 # b2 # b3 # bs3 \<Rightarrow>
             (let c = (b0 - 0xF0) * 262144 + (b1 - 0x80) * 4096 + (b2 - 0x80) * 64
                        + (b3 - 0x80)
              in if continuation b1 \<and> continuation b2 \<and> continuation b3 \<and> 0x10000 \<le> c
                    \<and> c < 0x110000
                 then map_option (Cons c) (utf8_decode bs3)
                 else None)
         | _ \<Rightarrow> None)
      else None)"

definition bytes_decode :: "pybytes \<Rightarrow> py_error + pystr" where
  "bytes_decode b = (case utf8_decode b of None \<Rightarrow> Inl UnicodeDecodeError | Some s \<Rightarrow> Inr s)"

text \<open>A string that \<^verbatim>\<open>str.encode("utf-8")\<close> accepts: code points, none of them a surrogate.\<close>

definition encodable :: "pystr \<Rightarrow> bool" where
  "encodable s = list_all (\<lambda>c. c < 0x110000 \<and> \<not> (0xD800 \<le> c \<and> c \<le> 0xDFFF)) s"

section \<open>Model invocation (\<^verbatim>\<open>llm_async.py\<close>)\<close>

record AsyncLLMResponse =
  content :: string
  model :: string
  temperature :: real
  prompt_tokens :: int
  completion_tokens :: int
  latency_ms :: real
  cached :: bool

text \<open>
  The module-level flag \<^verbatim>\<open>HTTPX_AVAILABLE\<close> and the environment variable
  \<^verbatim>\<open>DEEPSEEK_API_KEY\<close> (\<open>None\<close> when unset).
\<close>

record llm_env =
  HTTPX_AVAILABLE :: bool
  DEEPSEEK_API_KEY :: "string option"

text \<open>
  The body sent to \<^verbatim>\<open>/chat/completions\<close> and what one HTTP exchange produces. The
  exchange itself (\<^verbatim>\<open>client.post\<close>, \<^verbatim>\<open>raise_for_status\<close>, \<^verbatim>\<open>response.json()\<close>, the
  indexing into the decoded body, the two clock readings around it) is outside the
  repository: it is an argument \<open>post\<close> of the call, returning either the exception raised
  during the exchange or the fields the function reads from the reply.
\<close>

record chat_request =
  req_model :: string
  req_messages :: "(string \<times> string) list"
  req_temperature :: real
  req_timeout :: real

record chat_reply =
  reply_content :: string
  usage_prompt_tokens :: "int option"
  usage_completion_tokens :: "int option"
  elapsed_ms :: real

type_synonym exchange = "chat_request \<Rightarrow> py_error + chat_reply"

definition mock_content :: string where
  \<open>mock_content = ''{"mode": "tool_request", "requests": [], "why": "Mocked - no API key"}''\<close>

text \<open>Python truthiness of \<^verbatim>\<open>Optional[str]\<close>: \<open>None\<close> and the empty string are falsy.\<close>

fun truthy :: "string option \<Rightarrow> bool" where
  "truthy None = False"
| "truthy (Some s) = (s \<noteq> [])"

definition build_messages :: "string option \<Rightarrow> string \<Rightarrow> (string \<times> string) list" where
  "build_messages system_prompt prompt =
     (if truthy system_prompt then [(''system'', the system_prompt)] else [])
       @ [(''user'', prompt)]"

definition call_deepseek_async ::
  "llm_env \<Rightarrow> exchange \<Rightarrow> string \<Rightarrow> real \<Rightarrow> string \<Rightarrow> string option \<Rightarrow> real
     \<Rightarrow> py_error + AsyncLLMResponse" where
  "call_deepseek_async env post prompt temp mdl system_prompt timeout =
     (if \<not> HTTPX_AVAILABLE env
      then Inl (RuntimeError ''httpx not installed. Run: pip install httpx'')
      else if \<not> truthy (DEEPSEEK_API_KEY env)
      then Inr \<lparr>content = mock_content, model = mdl, temperature = temp,
                prompt_tokens = 0, completion_tokens = 0, latency_ms = 0, cached = False\<rparr>
      else
        (case post \<lparr>req_model = mdl, req_messages = build_messages system_prompt prompt,
                     req_temperature = temp, req_timeout = timeout\<rparr> of
           Inl e \<Rightarrow> Inl e
         | Inr r \<Rightarrow>
             Inr \<lparr>content = reply_content r, model = mdl, temperature = temp,
                  prompt_tokens = (case usage_prompt_tokens r of None \<Rightarrow> 0 | Some n \<Rightarrow> n),
                  completion_tokens =
                    (case usage_completion_tokens r of None \<Rightarrow> 0 | Some n \<Rightarrow> n),
                  latency_ms = elapsed_ms r, cached = False\<rparr>))"

subsection \<open>Parallel fan-out\<close>

text \<open>
  \<^verbatim>\<open>asyncio.gather(*tasks, return_exceptions=True)\<close>, as the asyncio documentation
  describes it. Every child owns one future. Children finish in some order
  (\<open>completion_order\<close>, a list of child indices); finishing child \<open>i\<close> stores its outcome,
  result or exception alike, in future \<open>i\<close>. When every future is filled, the outer future
  resolves to the outcomes in argument order. While some child is pending the outer future
  is pending too (\<open>None\<close>).
\<close>

definition finish_child :: "'r list \<Rightarrow> nat \<Rightarrow> 'r option list \<Rightarrow> 'r option list" where
  "finish_child outcomes i futures = futures[i := Some (outcomes ! i)]"

definition gather :: "'r list \<Rightarrow> nat list \<Rightarrow> 'r list option" where
  "gather outcomes completion_order =
     (let futures = fold (finish_child outcomes) completion_order
                      (replicate (length outcomes) None)
      in if list_all (\<lambda>f. f \<noteq> None) futures then Some (map the futures) else None)"

text \<open>
  \<open>posts i\<close> is the HTTP exchange of the \<open>i\<close>-th task: exchanges of different tasks are
  independent arguments, so one may fail while another succeeds.
\<close>

definition call_parallel ::
  "llm_env \<Rightarrow> (nat \<Rightarrow> exchange) \<Rightarrow> (string \<times> real) list \<Rightarrow> string \<Rightarrow> string option \<Rightarrow> real
     \<Rightarrow> nat list \<Rightarrow> (py_error + AsyncLLMResponse) list option" where
  "call_parallel env posts prompts mdl system_prompt timeout completion_order =
     gather
       (map (\<lambda>(i, (prompt, temp)).
               call_deepseek_async env (posts i) prompt temp mdl system_prompt timeout)
            (enumerate 0 prompts))
       completion_order"

section \<open>Subprocess pool (\<^verbatim>\<open>optimizations.py\<close>)\<close>

text \<open>
  A worker owns one OS process; \<open>process\<close> is the handle of that process and also stands
  for the identity of the worker object (no two workers share a process). Whether a
  process is still running (\<^verbatim>\<open>worker.process.poll() is None\<close>) is a fact of the operating
  system at the time of the call: the argument \<open>running\<close> of \<open>acquire\<close>.
\<close>

record SubprocessWorker =
  process :: nat
  last_used :: real
  in_use :: bool

text \<open>
  The pool. \<open>lock_held\<close> is the state of \<^verbatim>\<open>_lock\<close> as a caller finds it: \<open>True\<close> while
  another thread is inside \<open>acquire\<close>, \<open>release\<close>, \<open>cleanup\<close> or \<open>shutdown\<close> (the last two keep
  the lock while they wait up to five seconds for each process they terminate). Every
  method releases the lock before it returns or raises.
\<close>

record SubprocessPool =
  max_workers :: int
  max_idle_time :: real
  workers :: "SubprocessWorker list"
  lock_held :: bool

text \<open>
  The loop of \<open>acquire\<close>: the first worker that is not in use and whose process is running
  is marked (in place) and returned; \<open>None\<close> when the loop ends without returning.
\<close>

fun find_available ::
  "(nat \<Rightarrow> bool) \<Rightarrow> real \<Rightarrow> SubprocessWorker list
     \<Rightarrow> (SubprocessWorker \<times> SubprocessWorker list) option" where
  "find_available running now [] = None"
| "find_available running now (w # ws) =
     (if \<not> in_use w \<and> running (process w)
      then Some (w\<lparr>in_use := True, last_used := now\<rparr>,
                 w\<lparr>in_use := True, last_used := now\<rparr> # ws)
      else (case find_available running now ws of
              None \<Rightarrow> None
            | Some (found, ws') \<Rightarrow> Some (found, w # ws')))"

text \<open>
  \<open>_create_worker\<close>. \<open>popen\<close> is what \<^verbatim>\<open>subprocess.Popen(["/bin/bash", "-i"], \<dots>)\<close> does when
  it is called: it returns the handle of the shell it started, or it raises (\<^verbatim>\<open>OSError\<close>
  when the shell cannot be started: no such file, no more processes, file descriptors or
  memory). The exception is not caught.
\<close>

definition create_worker :: "(py_error + nat) \<Rightarrow> real \<Rightarrow> py_error + SubprocessWorker" where
  "create_worker popen now =
     (case popen of
        Inl e \<Rightarrow> Inl e
      | Inr new_process \<Rightarrow> Inr \<lparr>process = new_process, last_used = now, in_use = False\<rparr>)"

text \<open>
  \<open>acquire\<close>. A call that finds the lock held waits at \<^verbatim>\<open>with self._lock\<close> and has done
  nothing yet. With the lock, the scan comes first, then the creation of a worker if the
  list is shorter than \<open>max_workers\<close>, then \<^verbatim>\<open>return None\<close>. An exception of
  \<open>_create_worker\<close> leaves through the \<^verbatim>\<open>with\<close> block, which releases the lock; the list
  is unchanged.
\<close>

definition acquire ::
  "SubprocessPool \<Rightarrow> (nat \<Rightarrow> bool) \<Rightarrow> real \<Rightarrow> py_error + nat
     \<Rightarrow> (py_error, SubprocessWorker option) outcome \<times> SubprocessPool" where
  "acquire pool running now popen =
     (if lock_held pool then (Waits, pool)
      else
        (case find_available running now (workers pool) of
           Some (found, ws') \<Rightarrow> (Returns (Some found), pool\<lparr>workers := ws'\<rparr>)
         | None \<Rightarrow>
             if int (length (workers pool)) < max_workers pool
             then (case create_worker popen now of
                     Inl e \<Rightarrow> (Raises e, pool)
                   | Inr created \<Rightarrow>
                       (let worker = created\<lparr>in_use := True\<rparr>
                        in (Returns (Some worker),
                            pool\<lparr>workers := workers pool @ [worker]\<rparr>)))
             else (Returns None, pool)))"

text \<open>
  \<open>release\<close> takes the lock and assigns to the fields of the worker object it is given;
  the pool sees the change because its list holds that same object.
\<close>

definition release ::
  "SubprocessPool \<Rightarrow> SubprocessWorker \<Rightarrow> real \<Rightarrow> (py_error, unit) outcome \<times> SubprocessPool"
  where
  "release pool worker now =
     (if lock_held pool then (Waits, pool)
      else
        (Returns (),
         pool\<lparr>workers :=
           map (\<lambda>w. if process w = process worker
                     then w\<lparr>in_use := False, last_used := now\<rparr> else w)
             (workers pool)\<rparr>))"

section \<open>Early termination heuristics (\<^verbatim>\<open>optimizations.py\<close>)\<close>

record TerminationHeuristics =
  min_steps :: int
  max_consecutive_failures :: int
  max_similar_patches :: int
  min_success_rate :: real
  patch_hashes :: "string list"
  consecutive_failures :: int
  total_attempts :: int
  successful_attempts :: int

text \<open>\<open>__post_init__\<close> and \<open>reset\<close>: an empty buffer and zero counters.\<close>

definition reset :: "TerminationHeuristics \<Rightarrow> TerminationHeuristics" where
  "reset h = h\<lparr>patch_hashes := [], consecutive_failures := 0, total_attempts := 0,
               successful_attempts := 0\<rparr>"

text \<open>
  \<^verbatim>\<open>deque(maxlen=n).append(x)\<close>: the new element goes to the right end; a deque that
  was full drops its leftmost (oldest) element.
\<close>

definition deque_append :: "nat \<Rightarrow> 'a list \<Rightarrow> 'a \<Rightarrow> 'a list" where
  "deque_append maxlen xs x =
     (if length xs < maxlen then xs @ [x] else drop (Suc (length xs) - maxlen) (xs @ [x]))"

text \<open>
  \<open>record_attempt\<close>. The counters are updated first. Then \<^verbatim>\<open>diff.encode()\<close> is evaluated:
  it raises \<^verbatim>\<open>UnicodeEncodeError\<close> for a string that holds a surrogate, and the exception
  leaves \<open>record_attempt\<close> with the counters updated and the buffer as it was.
  \<open>sha256_hexdigest\<close> stands for \<^verbatim>\<open>hashlib.sha256(b).hexdigest()\<close>, a library function
  taken as a parameter.
\<close>

definition record_attempt ::
  "(pybytes \<Rightarrow> string) \<Rightarrow> TerminationHeuristics \<Rightarrow> pystr \<Rightarrow> bool
     \<Rightarrow> (py_error + unit) \<times> TerminationHeuristics" where
  "record_attempt sha256_hexdigest h diff success =
     (let h1 = h\<lparr>total_attempts := total_attempts h + 1\<rparr>;
          h2 = (if success
                then h1\<lparr>successful_attempts := successful_attempts h1 + 1,
                         consecutive_failures := 0\<rparr>
                else h1\<lparr>consecutive_failures := consecutive_failures h1 + 1\<rparr>)
      in case str_encode diff of
           Inl e \<Rightarrow> (Inl e, h2)
         | Inr encoded \<Rightarrow>
             (let patch_hash = take 16 (sha256_hexdigest encoded)
              in (Inr (), h2\<lparr>patch_hashes := deque_append 20 (patch_hashes h2) patch_hash\<rparr>)))"

text \<open>Python's \<^verbatim>\<open>xs[start:]\<close> for any integer \<open>start\<close> (a negative one counts from the end).\<close>

definition py_slice_from :: "'a list \<Rightarrow> int \<Rightarrow> 'a list" where
  "py_slice_from xs start =
     (if start < 0 then drop (nat (int (length xs) + start)) xs else drop (nat start) xs)"

text \<open>Python's \<^verbatim>\<open>str\<close> of an integer.\<close>

fun str_nat :: "nat \<Rightarrow> string" where
  "str_nat n =
     (if n < 10 then [char_of (48 + n)] else str_nat (n div 10) @ [char_of (48 + n mod 10)])"

declare str_nat.simps [simp del]

definition str_int :: "int \<Rightarrow> string" where
  "str_int i = (if i < 0 then CHR ''-'' # str_nat (nat (- i)) else str_nat (nat i))"

text \<open>
  \<open>format_percent\<close> stands for Python's float formatting \<^verbatim>\<open>f"{rate:.1%}"\<close>, taken as a
  parameter. The division \<^verbatim>\<open>self._successful_attempts / self._total_attempts\<close> raises
  \<^verbatim>\<open>ZeroDivisionError\<close> when no attempt has been recorded.
\<close>

definition should_terminate ::
  "(real \<Rightarrow> string) \<Rightarrow> TerminationHeuristics \<Rightarrow> py_error + (bool \<times> string)" where
  "should_terminate format_percent h =
     (if consecutive_failures h \<ge> max_consecutive_failures h
      then Inr (True, ''Too many consecutive failures ('' @ str_int (consecutive_failures h)
                        @ '')'')
      else if int (length (patch_hashes h)) \<ge> max_similar_patches h
              \<and> length (remdups (py_slice_from (patch_hashes h) (- max_similar_patches h))) = 1
      then Inr (True, ''Repeated identical patches'')
      else if total_attempts h \<ge> min_steps h
      then (if total_attempts h = 0 then Inl ZeroDivisionError
            else (let rate = real_of_int (successful_attempts h) / real_of_int (total_attempts h)
                  in if rate < min_success_rate h
                     then Inr (True, ''Success rate too low ('' @ format_percent rate @ '')'')
                     else Inr (False, '''')))
      else Inr (False, ''''))"

section \<open>Retry with backoff (\<^verbatim>\<open>optimizations.py\<close>)\<close>

text \<open>The parameters of the decorator; the last three are floats.\<close>

record retry_config =
  max_retries :: int
  base_delay :: real
  max_delay :: real
  exponential_base :: real

text \<open>
  What the wrapper does that a caller can observe: invocations of the wrapped function
  (tagged with the loop variable \<open>attempt\<close>) and calls of \<^verbatim>\<open>time.sleep\<close> that return.
\<close>

datatype event = Invoke nat | Sleep real

text \<open>
  An exception leaving the wrapper is either one the wrapped function raised (\<open>Raised\<close>,
  the very value the function raised) or one raised by the wrapper's own statements
  (\<open>Internal\<close>): the power \<^verbatim>\<open>exponential_base ** attempt\<close> raises \<^verbatim>\<open>OverflowError\<close> when
  its value is beyond the doubles, \<^verbatim>\<open>time.sleep\<close> raises for a delay it does not accept, and
  \<^verbatim>\<open>raise last_exception\<close> with \<open>last_exception = None\<close> is a \<^verbatim>\<open>TypeError\<close>. The first two
  are raised inside the \<^verbatim>\<open>except\<close> block, which nothing encloses: they end the loop.
\<close>

datatype 'e raised = Raised 'e | Internal py_error

text \<open>
  \<^verbatim>\<open>min(base_delay * (exponential_base ** attempt), max_delay)\<close>. The product of two
  doubles does not raise (beyond the doubles it is an infinity, and \<^verbatim>\<open>min\<close> then gives
  \<open>max_delay\<close>, as it does for the product of the reals).
\<close>

definition backoff_delay :: "retry_config \<Rightarrow> nat \<Rightarrow> py_error + real" where
  "backoff_delay cfg attempt =
     (case float_pow (exponential_base cfg) attempt of
        Inl e \<Rightarrow> Inl e
      | Inr factor \<Rightarrow> Inr (min (base_delay cfg * factor) (max_delay cfg)))"

text \<open>
  The \<^verbatim>\<open>for attempt in range(max_retries + 1)\<close> loop over the remaining attempts.
  \<open>func attempt\<close> is the outcome of the invocation made in iteration \<open>attempt\<close> (the wrapped
  function may behave differently each time); \<open>retryable\<close> says whether an exception is
  an instance of \<^verbatim>\<open>retryable_exceptions\<close>. \<open>sleep\<close> stands for \<^verbatim>\<open>time.sleep\<close>, a library
  function taken as a parameter: \<open>sleep d\<close> is \<open>None\<close> when the call sleeps and returns, and
  the exception otherwise (\<^verbatim>\<open>ValueError\<close> for a negative delay, \<^verbatim>\<open>OverflowError\<close> or \<^verbatim>\<open>OSError\<close>
  for a delay beyond what the platform can time, about 292 years). The code after the
  loop is the case of the empty list.
\<close>

fun retry_loop ::
  "retry_config \<Rightarrow> ('e \<Rightarrow> bool) \<Rightarrow> (real \<Rightarrow> py_error option) \<Rightarrow> (nat \<Rightarrow> 'e + 'v) \<Rightarrow> nat list
     \<Rightarrow> 'e option \<Rightarrow> ('e raised + 'v) \<times> event list" where
  "retry_loop cfg retryable sleep func [] last_exception =
     (case last_exception of
        None \<Rightarrow> (Inl (Internal (TypeError ''exceptions must derive from BaseException'')), [])
      | Some e \<Rightarrow> (Inl (Raised e), []))"
| "retry_loop cfg retryable sleep func (attempt # rest) last_exception =
     (case func attempt of
        Inr v \<Rightarrow> (Inr v, [Invoke attempt])
      | Inl e \<Rightarrow>
          if \<not> retryable e then (Inl (Raised e), [Invoke attempt])
          else if int attempt < max_retries cfg
          then (case backoff_delay cfg attempt of
                  Inl err \<Rightarrow> (Inl (Internal err), [Invoke attempt])
                | Inr delay \<Rightarrow>
                    (case sleep delay of
                       Some err \<Rightarrow> (Inl (Internal err), [Invoke attempt])
                     | None \<Rightarrow>
                         (let (result, events) =
                                retry_loop cfg retryable sleep func rest (Some e)
                          in (result, Invoke attempt # Sleep delay # events))))
          else (Inl (Raised e), [Invoke attempt]))"

definition retry_wrapper ::
  "retry_config \<Rightarrow> ('e \<Rightarrow> bool) \<Rightarrow> (real \<Rightarrow> py_error option) \<Rightarrow> (nat \<Rightarrow> 'e + 'v)
     \<Rightarrow> ('e raised + 'v) \<times> event list" where
  "retry_wrapper cfg retryable sleep func =
     retry_loop cfg retryable sleep func [0..<nat (max_retries cfg + 1)] None"

text \<open>The events of attempts \<open>a, \<dots>, b - 1\<close> when each fails and is retried.\<close>

definition retried :: "retry_config \<Rightarrow> nat \<Rightarrow> nat \<Rightarrow> event list" where
  "retried cfg a b =
     concat (map (\<lambda>k. [Invoke k,
                        Sleep (min (base_delay cfg * exponential_base cfg ^ k) (max_delay cfg))])
               [a..<b])"

fun is_invoke :: "event \<Rightarrow> bool" where
  "is_invoke (Invoke k) = True"
| "is_invoke (Sleep d) = False"

section \<open>Output limiting and compression (\<^verbatim>\<open>optimizations.py\<close>)\<close>

subsection \<open>Resource limits\<close>

record ResourceLimits =
  max_memory_mb :: int
  max_cpu_seconds :: real
  max_file_size_mb :: int
  max_output_size_mb :: int

text \<open>Python's \<^verbatim>\<open>xs[:stop]\<close> for any integer \<open>stop\<close> (a negative one counts from the end).\<close>

definition py_slice_to :: "'a list \<Rightarrow> int \<Rightarrow> 'a list" where
  "py_slice_to xs stop =
     (if stop < 0 then take (nat (int (length xs) + stop)) xs else take (nat stop) xs)"

definition limit_output :: "ResourceLimits \<Rightarrow> pystr \<Rightarrow> pystr" where
  "limit_output limits output =
     (let max_chars = max_output_size_mb limits * 1024 * 1024
      in if int (length output) > max_chars
         then py_slice_to output max_chars
                @ ascii ([CHR 0x0A] @ ''... [truncated ''
                         @ str_int (int (length output) - max_chars) @ '' chars]'')
         else output)"

subsection \<open>Response compression\<close>

text \<open>
  \<^verbatim>\<open>gzip.compress\<close> and \<^verbatim>\<open>gzip.decompress\<close> are library functions, taken as the
  parameters \<open>gz\<close> and \<open>gunz\<close>; \<open>gunz\<close> raises on data that is not a gzip stream.
\<close>

definition compress_response :: "(pybytes \<Rightarrow> pybytes) \<Rightarrow> pystr \<Rightarrow> py_error + pybytes" where
  "compress_response gz content_str =
     (case str_encode content_str of Inl e \<Rightarrow> Inl e | Inr b \<Rightarrow> Inr (gz b))"

definition decompress_response ::
  "(pybytes \<Rightarrow> py_error + pybytes) \<Rightarrow> pybytes \<Rightarrow> py_error + pystr" where
  "decompress_response gunz data =
     (case gunz data of Inl e \<Rightarrow> Inl e | Inr b \<Rightarrow> bytes_decode b)"

definition compress_if_large ::
  "(pybytes \<Rightarrow> pybytes) \<Rightarrow> pystr \<Rightarrow> int \<Rightarrow> py_error + (bool \<times> pybytes)" where
  "compress_if_large gz content_str threshold =
     (case str_encode content_str of
        Inl e \<Rightarrow> Inl e
      | Inr content_bytes \<Rightarrow>
          if int (length content_bytes) \<ge> threshold
          then (let compressed = gz content_bytes
                in if real (length compressed) < real (length content_bytes) * (9 / 10)
                   then Inr (True, compressed)
                   else Inr (False, content_bytes))
          else Inr (False, content_bytes))"

definition decompress_if_needed ::
  "(pybytes \<Rightarrow> py_error + pybytes) \<Rightarrow> bool \<Rightarrow> pybytes \<Rightarrow> py_error + pystr" where
  "decompress_if_needed gunz is_compressed data =
     (if is_compressed
      then (case gunz data of Inl e \<Rightarrow> Inl e | Inr b \<Rightarrow> bytes_decode b)
      else bytes_decode data)"

section \<open>Memoization with TTL (\<^verbatim>\<open>optimizations.py\<close>)\<close>

text \<open>
  The closure variable \<^verbatim>\<open>cache: Dict[str, Tuple[float, Any]]\<close>: a Python dictionary keeps
  its entries in insertion order, so it is a list of (key, (timestamp, value)) with
  distinct keys.
\<close>

type_synonym 'v memo_cache = "(string \<times> real \<times> 'v) list"

definition dict_del :: "'v memo_cache \<Rightarrow> string \<Rightarrow> 'v memo_cache" where
  "dict_del cache key = filter (\<lambda>entry. fst entry \<noteq> key) cache"

definition dict_set :: "'v memo_cache \<Rightarrow> string \<Rightarrow> real \<times> 'v \<Rightarrow> 'v memo_cache" where
  "dict_set cache key tv =
     (if key \<in> fst ` set cache
      then map (\<lambda>entry. if fst entry = key then (key, tv) else entry) cache
      else cache @ [(key, tv)])"

text \<open>
  \<^verbatim>\<open>min(cache, key=lambda k: cache[k][0])\<close>: the first key, in iteration order, whose
  timestamp is minimal; \<^verbatim>\<open>min\<close> of an empty dictionary raises \<^verbatim>\<open>ValueError\<close> (\<open>None\<close>).
\<close>

fun min_by_timestamp :: "string \<times> real \<times> 'v \<Rightarrow> 'v memo_cache \<Rightarrow> string" where
  "min_by_timestamp best [] = fst best"
| "min_by_timestamp best (entry # rest) =
     min_by_timestamp (if fst (snd entry) < fst (snd best) then entry else best) rest"

definition oldest_key :: "'v memo_cache \<Rightarrow> string option" where
  "oldest_key cache =
     (case cache of [] \<Rightarrow> None | entry # rest \<Rightarrow> Some (min_by_timestamp entry rest))"

text \<open>
  One call of the wrapper. The decorated function has two closure variables: the
  dictionary \<open>cache\<close> and a \<^verbatim>\<open>threading.Lock\<close>; \<open>locked\<close> says that the lock is held when the
  call reaches \<^verbatim>\<open>with lock\<close>. \<open>key_of\<close> stands for the key derivation
  \<^verbatim>\<open>str((args, tuple(sorted(kwargs.items()))))\<close>, which raises what the \<^verbatim>\<open>repr\<close> of an
  argument raises; \<open>now\<close> is the reading of the clock. \<open>func args\<close> is what the wrapped
  function does when it is invoked: it returns a value, it raises, or it does not return
  (\<open>Waits\<close>). The function is invoked inside the \<^verbatim>\<open>with lock\<close> block and the lock is not
  reentrant: a function that calls its own wrapper (a recursive memoized function) or
  \<^verbatim>\<open>clear_cache\<close> waits there for the lock that the outer call holds, so it does not
  return, and the lock stays held.

  The result is the outcome of the call, the cache and the lock afterwards, and whether
  \<open>func\<close> was invoked.
\<close>

definition memo_wrapper ::
  "real \<Rightarrow> int \<Rightarrow> ('a \<Rightarrow> 'e + string) \<Rightarrow> ('a \<Rightarrow> ('e, 'v) outcome) \<Rightarrow> 'v memo_cache \<Rightarrow> bool
     \<Rightarrow> real \<Rightarrow> 'a \<Rightarrow> ('e raised, 'v) outcome \<times> 'v memo_cache \<times> bool \<times> bool" where
  "memo_wrapper ttl_seconds maxsize key_of func cache locked now args =
     (case key_of args of
        Inl e \<Rightarrow> (Raises (Raised e), cache, locked, False)
      | Inr key \<Rightarrow>
          if locked then (Waits, cache, True, False)
          else
            (let (hit, cache1) =
                   (case map_of cache key of
                      Some (timestamp, v) \<Rightarrow>
                        if now - timestamp < ttl_seconds then (Some v, cache)
                        else (None, dict_del cache key)
                    | None \<Rightarrow> (None, cache))
             in case hit of
                  Some v \<Rightarrow> (Returns v, cache, False, False)
                | None \<Rightarrow>
                    (case func args of
                       Waits \<Rightarrow> (Waits, cache1, True, True)
                     | Raises e \<Rightarrow> (Raises (Raised e), cache1, False, True)
                     | Returns v \<Rightarrow>
                         if int (length cache1) \<ge> maxsize
                         then (case oldest_key cache1 of
                                 None \<Rightarrow>
                                   (Raises (Internal
                                      (ValueError ''min() arg is an empty sequence'')),
                                    cache1, False, True)
                               | Some oldest \<Rightarrow>
                                   (Returns v,
                                    dict_set (dict_del cache1 oldest) key (now, v),
                                    False, True))
                         else (Returns v, dict_set cache1 key (now, v), False, True))))"

section \<open>Response cache (\<^verbatim>\<open>llm_async.py\<close>)\<close>













section \<open>Properties of the UTF-8 codec\<close>

lemma split64: "c div 64 * 64 + c mod 64 = (c::nat)"
  by (rule div_mult_mod_eq)

lemma mod64_le: "c mod 64 \<le> (63::nat)"
proof -
  have "c mod 64 < 64" by simp
  then show ?thesis by linarith
qed

lemma split_twice: "q div 64 * 4096 + q mod 64 * 64 = q * (64::nat)"
proof -
  have "q * 64 = (q div 64 * 64 + q mod 64) * 64"
    by (simp only: split64)
  also have "\<dots> = q div 64 * 64 * 64 + q mod 64 * 64"
    by (rule add_mult_distrib)
  also have "q div 64 * 64 * 64 = q div 64 * 4096"
    by simp
  finally show ?thesis
    by (rule sym)
qed

lemma div4096: "c div 4096 = c div 64 div (64::nat)"
proof -
  have "c div (64 * 64) = c div 64 div 64"
    by (rule div_mult2_eq)
  then show ?thesis by simp
qed

lemma div262144: "c div 262144 = c div 4096 div (64::nat)"
proof -
  have "c div (4096 * 64) = c div 4096 div 64"
    by (rule div_mult2_eq)
  then show ?thesis by simp
qed

lemma split4096: "c div 4096 * 4096 + (c div 64) mod 64 * 64 + c mod 64 = (c::nat)"
proof -
  have "c div 4096 * 4096 + (c div 64) mod 64 * 64 = (c div 64) * 64"
    unfolding div4096 by (rule split_twice)
  then show ?thesis
    by (simp only: split64)
qed

lemma split262144:
  "c div 262144 * 262144 + (c div 4096) mod 64 * 4096 + (c div 64) mod 64 * 64 + c mod 64
     = (c::nat)"
proof -
  have "(c div 4096 div 64 * 4096 + c div 4096 mod 64 * 64) * 64 = c div 4096 * 64 * 64"
    by (simp only: split_twice)
  then have "c div 4096 div 64 * 4096 * 64 + c div 4096 mod 64 * 64 * 64
               = c div 4096 * 64 * 64"
    by (simp only: add_mult_distrib)
  then have "c div 262144 * 262144 + (c div 4096) mod 64 * 4096 = (c div 4096) * 4096"
    unfolding div262144 by simp
  then show ?thesis
    by (simp only: split4096)
qed

text \<open>Decoding sequences of two, three and four bytes, given by their payloads.\<close>

lemma decode2:
  assumes "2 \<le> d" "d < 32" "m0 \<le> 63"
  shows "utf8_decode ([0xC0 + d, 0x80 + m0] @ rest) =
           map_option (Cons (d * 64 + m0)) (utf8_decode rest)"
  using assms by (simp add: continuation_def)

lemma decode3:
  assumes "d < 16" "m1 \<le> 63" "m0 \<le> 63" "0x800 \<le> d * 4096 + m1 * 64 + m0"
    and "\<not> (0xD800 \<le> d * 4096 + m1 * 64 + m0 \<and> d * 4096 + m1 * 64 + m0 \<le> 0xDFFF)"
  shows "utf8_decode ([0xE0 + d, 0x80 + m1, 0x80 + m0] @ rest) =
           map_option (Cons (d * 4096 + m1 * 64 + m0)) (utf8_decode rest)"
  using assms by (simp add: continuation_def Let_def)

lemma decode4:
  assumes "d < 5" "m2 \<le> 63" "m1 \<le> 63" "m0 \<le> 63"
    and "0x10000 \<le> d * 262144 + m2 * 4096 + m1 * 64 + m0"
    and "d * 262144 + m2 * 4096 + m1 * 64 + m0 < 0x110000"
  shows "utf8_decode ([0xF0 + d, 0x80 + m2, 0x80 + m1, 0x80 + m0] @ rest) =
           map_option (Cons (d * 262144 + m2 * 4096 + m1 * 64 + m0)) (utf8_decode rest)"
  using assms by (simp add: continuation_def Let_def)

lemma decode_encode_char:
  assumes "utf8_encode_char c = Some bs"
  shows "utf8_decode (bs @ rest) = map_option (Cons c) (utf8_decode rest)"
proof -
  consider "c < 0x80" | "0x80 \<le> c" "c < 0x800"
    | "0x800 \<le> c" "c < 0x10000" "\<not> (0xD800 \<le> c \<and> c \<le> 0xDFFF)"
    | "0x10000 \<le> c" "c < 0x110000"
    using assms by (auto simp: utf8_encode_char_def split: if_splits)
  then show ?thesis
  proof cases
    case 1
    with assms show ?thesis by (auto simp: utf8_encode_char_def)
  next
    case 2
    then have bs: "bs = [0xC0 + c div 64, 0x80 + c mod 64]"
      using assms by (auto simp: utf8_encode_char_def)
    have "128 div 64 \<le> c div 64"
      using 2(1) by (intro div_le_mono) simp
    then have lo: "2 \<le> c div 64" by simp
    have hi: "c div 64 < 32"
      using 2(2) by (intro less_mult_imp_div_less) simp
    show ?thesis
      unfolding bs using decode2 [OF lo hi mod64_le [of c], of rest]
      by (simp only: split64)
  next
    case 3
    then have bs: "bs = [0xE0 + c div 4096, 0x80 + (c div 64) mod 64, 0x80 + c mod 64]"
      using assms by (auto simp: utf8_encode_char_def)
    have hi: "c div 4096 < 16"
      using 3(2) by (intro less_mult_imp_div_less) simp
    have lo: "0x800 \<le> c div 4096 * 4096 + (c div 64) mod 64 * 64 + c mod 64"
      using 3(1) by (simp only: split4096)
    have sur: "\<not> (0xD800 \<le> c div 4096 * 4096 + (c div 64) mod 64 * 64 + c mod 64
                 \<and> c div 4096 * 4096 + (c div 64) mod 64 * 64 + c mod 64 \<le> 0xDFFF)"
      unfolding split4096 by (rule 3(3))
    show ?thesis
      unfolding bs
      using decode3 [OF hi mod64_le [of "c div 64"] mod64_le [of c] lo sur, of rest]
      by (simp only: split4096)
  next
    case 4
    then have bs: "bs = [0xF0 + c div 262144, 0x80 + (c div 4096) mod 64,
                 0x80 + (c div 64) mod 64, 0x80 + c mod 64]"
      using assms by (auto simp: utf8_encode_char_def)
    have hi: "c div 262144 < 5"
      using 4(2) by (intro less_mult_imp_div_less) simp
    have lo: "0x10000 \<le> c div 262144 * 262144 + (c div 4096) mod 64 * 4096
                          + (c div 64) mod 64 * 64 + c mod 64"
      using 4(1) by (simp only: split262144)
    have up: "c div 262144 * 262144 + (c div 4096) mod 64 * 4096
                + (c div 64) mod 64 * 64 + c mod 64 < 0x110000"
      using 4(2) by (simp only: split262144)
    show ?thesis
      unfolding bs
      using decode4 [OF hi mod64_le [of "c div 4096"] mod64_le [of "c div 64"]
                       mod64_le [of c] lo up, of rest]
      by (simp only: split262144)
  qed
qed

lemma utf8_decode_encode:
  "utf8_encode s = Some b \<Longrightarrow> utf8_decode b = Some s"
proof (induction s arbitrary: b)
  case Nil
  then show ?case by simp
next
  case (Cons c cs)
  then obtain bs rest where parts: "utf8_encode_char c = Some bs" "utf8_encode cs = Some rest"
    "b = bs @ rest"
    by (auto split: option.splits)
  with Cons.IH [of rest] show ?case
    by (simp add: decode_encode_char del: utf8_decode.simps)
qed

lemma encodable_char:
  "c < 0x110000 \<and> \<not> (0xD800 \<le> c \<and> c \<le> 0xDFFF) \<longleftrightarrow> utf8_encode_char c \<noteq> None"
  by (auto simp: utf8_encode_char_def)

lemma encodable_iff: "encodable s \<longleftrightarrow> utf8_encode s \<noteq> None"
proof (induction s)
  case Nil
  then show ?case by (simp add: encodable_def)
next
  case (Cons c cs)
  then show ?case
    using encodable_char [of c]
    by (auto simp: encodable_def split: option.splits)
qed

lemma bytes_decode_str_encode:
  "str_encode s = Inr b \<Longrightarrow> bytes_decode b = Inr s"
  by (auto simp: str_encode_def bytes_decode_def utf8_decode_encode split: option.splits)

lemma utf8_encode_replicate:
  "utf8_encode_char c = Some bs \<Longrightarrow> utf8_encode (replicate n c) = Some (concat (replicate n bs))"
  by (induction n) simp_all

section \<open>Properties of the model invocation layer\<close>

lemma length_fold_finish_child:
  "length (fold (finish_child outcomes) order futures) = length futures"
  by (induction order arbitrary: futures) (simp_all add: finish_child_def)

lemma nth_fold_finish_child:
  "i < length futures \<Longrightarrow>
     fold (finish_child outcomes) order futures ! i =
       (if i \<in> set order then Some (outcomes ! i) else futures ! i)"
proof (induction order arbitrary: futures)
  case Nil
  then show ?case by simp
next
  case (Cons j order)
  have len: "i < length (finish_child outcomes j futures)"
    using Cons.prems by (simp add: finish_child_def)
  show ?case
  proof (cases "i \<in> set order")
    case True
    with Cons.IH [OF len] show ?thesis by simp
  next
    case False
    with Cons.IH [OF len] Cons.prems show ?thesis
      by (cases "i = j") (simp_all add: finish_child_def)
  qed
qed

lemma gather_all_finished:
  assumes "set completion_order = {0..<length outcomes}"
  shows "gather outcomes completion_order = Some outcomes"
proof -
  let ?futures = "fold (finish_child outcomes) completion_order
                    (replicate (length outcomes) None)"
  have len: "length ?futures = length outcomes"
    by (simp add: length_fold_finish_child)
  have nth: "?futures ! i = Some (outcomes ! i)" if "i < length outcomes" for i
    using that assms by (simp add: nth_fold_finish_child)
  have "?futures = map Some outcomes"
    by (rule nth_equalityI) (simp_all add: len nth)
  then show ?thesis
    by (simp add: gather_def list_all_iff comp_def)
qed

text \<open>
  C8 (amended). With the HTTP client library importable and no API key configured (the
  variable unset or empty), \<open>call_deepseek_async\<close> returns normally: no error of any kind
  is raised. The value returned is the placeholder response: the fixed mock content, the
  model and temperature of the request, zero token counts, zero latency and
  \<open>cached = False\<close>. It does not depend on the prompt, the system prompt, the timeout or
  the network, so two such calls with the same model and temperature return identical
  responses.
\<close>

theorem no_credential_placeholder:
  assumes "HTTPX_AVAILABLE env" and "\<not> truthy (DEEPSEEK_API_KEY env)"
  shows "call_deepseek_async env post prompt temp mdl system_prompt timeout =
           Inr \<lparr>content = mock_content, model = mdl, temperature = temp,
                prompt_tokens = 0, completion_tokens = 0, latency_ms = 0, cached = False\<rparr>
         \<and> call_deepseek_async env post prompt temp mdl system_prompt timeout =
             call_deepseek_async env post' prompt' temp mdl system_prompt' timeout'"
  using assms by (simp add: call_deepseek_async_def)

theorem no_credential_placeholder_witness:
  "HTTPX_AVAILABLE \<lparr>HTTPX_AVAILABLE = True, DEEPSEEK_API_KEY = None\<rparr>
   \<and> \<not> truthy (DEEPSEEK_API_KEY \<lparr>HTTPX_AVAILABLE = True, DEEPSEEK_API_KEY = None\<rparr>)
   \<and> call_deepseek_async \<lparr>HTTPX_AVAILABLE = True, DEEPSEEK_API_KEY = None\<rparr>
        (\<lambda>_. Inl (TransportError ''unreachable'')) ''fix the bug'' (1/5) ''deepseek-chat''
        None 120 =
      Inr \<lparr>content = mock_content, model = ''deepseek-chat'', temperature = 1/5,
           prompt_tokens = 0, completion_tokens = 0, latency_ms = 0, cached = False\<rparr>"
  using no_credential_placeholder
          [of "\<lparr>HTTPX_AVAILABLE = True, DEEPSEEK_API_KEY = None\<rparr>"
              "\<lambda>_. Inl (TransportError ''unreachable'')" "''fix the bug''" "1/5"
              "''deepseek-chat''" None 120]
  by simp

text \<open>
  C8 as stated fails. Without a credential the call does not fail at all: it returns the
  placeholder as an ordinary result (first conjunct: the result is not an \<open>Inl\<close>). And
  when the HTTP client library is missing, the check for it comes first and the call
  raises \<^verbatim>\<open>RuntimeError\<close> instead of returning the placeholder (second conjunct).
\<close>

theorem no_credential_counterexample:
  "\<not> isl (call_deepseek_async \<lparr>HTTPX_AVAILABLE = True, DEEPSEEK_API_KEY = None\<rparr>
            (\<lambda>_. Inl (TransportError ''unreachable'')) ''p'' 0 ''deepseek-chat'' None 120)
   \<and> call_deepseek_async \<lparr>HTTPX_AVAILABLE = False, DEEPSEEK_API_KEY = None\<rparr>
        (\<lambda>_. Inl (TransportError ''unreachable'')) ''p'' 0 ''deepseek-chat'' None 120 =
      Inl (RuntimeError ''httpx not installed. Run: pip install httpx'')"
  by (simp add: call_deepseek_async_def)

text \<open>
  C3. For every list of \<open>N\<close> requests, once every task has finished (in whatever
  completion order), \<open>call_parallel\<close> returns exactly \<open>N\<close> results and the \<open>i\<close>-th result
  is the outcome of the \<open>i\<close>-th request, a response or the exception that request raised.
  The \<open>i\<close>-th result depends on the \<open>i\<close>-th exchange only: whatever happens to the other
  requests (failure included) and whatever the completion order, it is the same.
\<close>

theorem call_parallel_isolation:
  assumes "set completion_order = {0..<length prompts}"
  shows "call_parallel env posts prompts mdl system_prompt timeout completion_order =
           Some (map (\<lambda>i. call_deepseek_async env (posts i) (fst (prompts ! i))
                              (snd (prompts ! i)) mdl system_prompt timeout)
                   [0..<length prompts])
         \<and> (\<forall>posts' order' i. set order' = {0..<length prompts} \<and> i < length prompts
                \<and> posts' i = posts i \<longrightarrow>
              the (call_parallel env posts' prompts mdl system_prompt timeout order') ! i =
              the (call_parallel env posts prompts mdl system_prompt timeout
                     completion_order) ! i)"
proof -
  have outcomes: "map (\<lambda>(i, (prompt, temp)).
               call_deepseek_async env (ps i) prompt temp mdl system_prompt timeout)
            (enumerate 0 prompts) =
        map (\<lambda>i. call_deepseek_async env (ps i) (fst (prompts ! i))
                              (snd (prompts ! i)) mdl system_prompt timeout)
                   [0..<length prompts]" for ps
    by (rule nth_equalityI) (simp_all add: nth_enumerate_eq case_prod_beta)
  have run: "call_parallel env ps prompts mdl system_prompt timeout order =
           Some (map (\<lambda>i. call_deepseek_async env (ps i) (fst (prompts ! i))
                              (snd (prompts ! i)) mdl system_prompt timeout)
                   [0..<length prompts])"
    if "set order = {0..<length prompts}" for ps order
    unfolding call_parallel_def outcomes
    by (rule gather_all_finished) (simp add: that)
  show ?thesis
    using assms by (simp add: run)
qed

theorem call_parallel_isolation_witness:
  "set [2, 0, 1] = {0..<length [(''p'', 0::real), (''p'', 1/5), (''p'', 2/5)]}
   \<and> call_parallel \<lparr>HTTPX_AVAILABLE = True, DEEPSEEK_API_KEY = Some ''k''\<rparr>
       (\<lambda>i req. if i = 1 then Inl (TransportError ''503'')
                 else Inr \<lparr>reply_content = ''{}'', usage_prompt_tokens = Some 7,
                           usage_completion_tokens = None, elapsed_ms = 12\<rparr>)
       [(''p'', 0), (''p'', 1/5), (''p'', 2/5)] ''deepseek-chat'' None 120 [2, 0, 1] =
     Some [Inr \<lparr>content = ''{}'', model = ''deepseek-chat'', temperature = 0,
                prompt_tokens = 7, completion_tokens = 0, latency_ms = 12, cached = False\<rparr>,
           Inl (TransportError ''503''),
           Inr \<lparr>content = ''{}'', model = ''deepseek-chat'', temperature = 2/5,
                prompt_tokens = 7, completion_tokens = 0, latency_ms = 12, cached = False\<rparr>]"
proof -
  have h: "set [2, 0, 1] = {0..<length [(''p'', 0::real), (''p'', 1/5), (''p'', 2/5)]}"
    by auto
  show ?thesis
    using h call_parallel_isolation [OF h,
        of "\<lparr>HTTPX_AVAILABLE = True, DEEPSEEK_API_KEY = Some ''k''\<rparr>"
       "(\<lambda>i req. if i = 1 then Inl (TransportError ''503'')
                 else Inr \<lparr>reply_content = ''{}'', usage_prompt_tokens = Some 7,
                           usage_completion_tokens = None, elapsed_ms = 12\<rparr>)"
       "''deepseek-chat''" None 120]
    by (simp add: call_deepseek_async_def upt_rec)
qed

section \<open>Properties of the subprocess pool\<close>

lemma find_available_none:
  "(\<forall>w \<in> set ws. in_use w \<or> \<not> running (process w)) \<Longrightarrow>
     find_available running now ws = None"
  by (induction ws) auto

lemma find_available_first:
  "(\<forall>x \<in> set pre. in_use x \<or> \<not> running (process x)) \<Longrightarrow>
   \<not> in_use w \<Longrightarrow> running (process w) \<Longrightarrow>
     find_available running now (pre @ w # post) =
       Some (w\<lparr>in_use := True, last_used := now\<rparr>,
             pre @ w\<lparr>in_use := True, last_used := now\<rparr> # post)"
  by (induction pre) auto

lemma find_available_none_iff:
  "find_available running now ws = None \<longleftrightarrow>
     (\<forall>w \<in> set ws. in_use w \<or> \<not> running (process w))"
  by (induction ws) (auto split: option.splits)

text \<open>\<open>acquire\<close> raises only what \<^verbatim>\<open>Popen\<close> raises, and only when it has to start a process.\<close>

lemma acquire_raises:
  assumes "fst (acquire pool running now popen) = Raises e"
  shows "popen = Inl e \<and> \<not> lock_held pool
         \<and> (\<forall>x \<in> set (workers pool). in_use x \<or> \<not> running (process x))
         \<and> int (length (workers pool)) < max_workers pool"
proof (cases "find_available running now (workers pool)")
  case None
  then have "\<forall>x \<in> set (workers pool). in_use x \<or> \<not> running (process x)"
    by (simp add: find_available_none_iff)
  with assms show ?thesis
    unfolding acquire_def None
    by (auto simp: create_worker_def Let_def split: if_splits sum.splits)
next
  case (Some found)
  with assms show ?thesis
    unfolding acquire_def Some
    by (auto split: if_splits prod.splits)
qed

lemma acquire_waits:
  "fst (acquire pool running now popen) = Waits \<longleftrightarrow> lock_held pool"
  by (auto simp: acquire_def create_worker_def Let_def
           split: option.splits prod.splits sum.splits)

text \<open>
  C7 (amended). With the lock free:
  (1) \<open>acquire\<close> returns the first worker that is not in use and whose process is running,
  marked in use;
  (2) when there is none and the pool is below \<open>max_workers\<close> it starts a process and
  appends and returns a new worker, in use; if the process cannot be started, the
  exception of \<^verbatim>\<open>Popen\<close> leaves \<open>acquire\<close> and the pool is unchanged;
  (3) otherwise it returns \<open>None\<close> and leaves the pool as it is, whatever \<^verbatim>\<open>Popen\<close> would
  do: nothing is raised, no process is started, and the call does not wait for a worker
  to be released.
  (4) While the lock is held, \<open>acquire\<close> and \<open>release\<close> wait; (5) \<open>acquire\<close> waits in no other
  case, and (6) it raises in no other case than the one of (2).
  (7) After \<open>release\<close> the released worker is not in use, whether or not its process is
  running: \<open>release\<close> is not even given the state of the processes.
  (8) On a pool with \<open>max_workers = 2\<close> whose lock is free and whose processes start: two
  acquisitions return two new workers, a third returns \<open>None\<close>, and after the release of
  either worker the next \<open>acquire\<close> returns that worker if its process is still running,
  and \<open>None\<close> if it has exited: the dead worker stays in the list and counts towards
  \<open>max_workers\<close>.
\<close>

theorem acquire_release_contract:
  "(\<not> lock_held pool \<and> workers pool = pre @ w # post
      \<and> (\<forall>x \<in> set pre. in_use x \<or> \<not> running (process x))
      \<and> \<not> in_use w \<and> running (process w) \<longrightarrow>
      acquire pool running now popen =
        (Returns (Some (w\<lparr>in_use := True, last_used := now\<rparr>)),
         pool\<lparr>workers := pre @ w\<lparr>in_use := True, last_used := now\<rparr> # post\<rparr>))
   \<and> (\<not> lock_held pool \<and> (\<forall>x \<in> set (workers pool). in_use x \<or> \<not> running (process x))
        \<and> int (length (workers pool)) < max_workers pool \<longrightarrow>
      acquire pool running now (Inr new_process) =
        (Returns (Some \<lparr>process = new_process, last_used = now, in_use = True\<rparr>),
         pool\<lparr>workers := workers pool
                  @ [\<lparr>process = new_process, last_used = now, in_use = True\<rparr>]\<rparr>)
      \<and> acquire pool running now (Inl err) = (Raises err, pool))
   \<and> (\<not> lock_held pool \<and> (\<forall>x \<in> set (workers pool). in_use x \<or> \<not> running (process x))
        \<and> \<not> int (length (workers pool)) < max_workers pool \<longrightarrow>
      acquire pool running now popen = (Returns None, pool))
   \<and> (lock_held pool \<longrightarrow>
        acquire pool running now popen = (Waits, pool)
        \<and> release pool worker now = (Waits, pool))
   \<and> (fst (acquire pool running now popen) = Waits \<longrightarrow> lock_held pool)
   \<and> (fst (acquire pool running now popen) = Raises e \<longrightarrow>
        popen = Inl e \<and> \<not> lock_held pool
        \<and> (\<forall>x \<in> set (workers pool). in_use x \<or> \<not> running (process x))
        \<and> int (length (workers pool)) < max_workers pool)
   \<and> (\<not> lock_held pool \<longrightarrow>
        fst (release pool worker now) = Returns ()
        \<and> (\<forall>x \<in> set (workers (snd (release pool worker now))).
              process x = process worker \<longrightarrow> \<not> in_use x))
   \<and> (pa \<noteq> pb \<longrightarrow>
        (let pool0 = \<lparr>max_workers = 2, max_idle_time = idle, workers = [],
                      lock_held = False\<rparr>;
             (a1, pool1) = acquire pool0 ra ta (Inr pa);
             (a2, pool2) = acquire pool1 rb tb (Inr pb);
             (a3, pool3) = acquire pool2 rc tc pc;
             released = \<lparr>process = (if first then pa else pb),
                         last_used = (if first then ta else tb), in_use = True\<rparr>;
             (r4, pool4) = release pool3 released td;
             (a5, pool5) = acquire pool4 running te pe
         in a1 = Returns (Some \<lparr>process = pa, last_used = ta, in_use = True\<rparr>)
            \<and> a2 = Returns (Some \<lparr>process = pb, last_used = tb, in_use = True\<rparr>)
            \<and> a3 = Returns None
            \<and> r4 = Returns ()
            \<and> a5 = (if running (process released)
                     then Returns (Some (released\<lparr>last_used := te\<rparr>))
                     else Returns None)))"
proof -
  have found: "\<not> lock_held pool \<and> workers pool = pre @ w # post
      \<and> (\<forall>x \<in> set pre. in_use x \<or> \<not> running (process x))
      \<and> \<not> in_use w \<and> running (process w) \<longrightarrow>
      acquire pool running now popen =
        (Returns (Some (w\<lparr>in_use := True, last_used := now\<rparr>)),
         pool\<lparr>workers := pre @ w\<lparr>in_use := True, last_used := now\<rparr> # post\<rparr>)"
    by (simp add: acquire_def find_available_first)
  have grow: "\<not> lock_held pool
        \<and> (\<forall>x \<in> set (workers pool). in_use x \<or> \<not> running (process x))
        \<and> int (length (workers pool)) < max_workers pool \<longrightarrow>
      acquire pool running now (Inr new_process) =
        (Returns (Some \<lparr>process = new_process, last_used = now, in_use = True\<rparr>),
         pool\<lparr>workers := workers pool
                  @ [\<lparr>process = new_process, last_used = now, in_use = True\<rparr>]\<rparr>)
      \<and> acquire pool running now (Inl err) = (Raises err, pool)"
    by (simp add: acquire_def create_worker_def find_available_none Let_def)
  have full: "\<not> lock_held pool
        \<and> (\<forall>x \<in> set (workers pool). in_use x \<or> \<not> running (process x))
        \<and> \<not> int (length (workers pool)) < max_workers pool \<longrightarrow>
      acquire pool running now popen = (Returns None, pool)"
    by (simp add: acquire_def find_available_none)
  have held: "lock_held pool \<longrightarrow>
        acquire pool running now popen = (Waits, pool)
        \<and> release pool worker now = (Waits, pool)"
    by (simp add: acquire_def release_def)
  have waits: "fst (acquire pool running now popen) = Waits \<longrightarrow> lock_held pool"
    by (simp add: acquire_waits)
  have raises: "fst (acquire pool running now popen) = Raises e \<longrightarrow>
        popen = Inl e \<and> \<not> lock_held pool
        \<and> (\<forall>x \<in> set (workers pool). in_use x \<or> \<not> running (process x))
        \<and> int (length (workers pool)) < max_workers pool"
    using acquire_raises [of pool running now popen e] by blast
  have released: "\<not> lock_held pool \<longrightarrow>
        fst (release pool worker now) = Returns ()
        \<and> (\<forall>x \<in> set (workers (snd (release pool worker now))).
              process x = process worker \<longrightarrow> \<not> in_use x)"
    by (auto simp: release_def)
  have scenario: "pa \<noteq> pb \<longrightarrow>
        (let pool0 = \<lparr>max_workers = 2, max_idle_time = idle, workers = [],
                      lock_held = False\<rparr>;
             (a1, pool1) = acquire pool0 ra ta (Inr pa);
             (a2, pool2) = acquire pool1 rb tb (Inr pb);
             (a3, pool3) = acquire pool2 rc tc pc;
             released = \<lparr>process = (if first then pa else pb),
                         last_used = (if first then ta else tb), in_use = True\<rparr>;
             (r4, pool4) = release pool3 released td;
             (a5, pool5) = acquire pool4 running te pe
         in a1 = Returns (Some \<lparr>process = pa, last_used = ta, in_use = True\<rparr>)
            \<and> a2 = Returns (Some \<lparr>process = pb, last_used = tb, in_use = True\<rparr>)
            \<and> a3 = Returns None
            \<and> r4 = Returns ()
            \<and> a5 = (if running (process released)
                     then Returns (Some (released\<lparr>last_used := te\<rparr>))
                     else Returns None))"
    by (auto simp: acquire_def release_def create_worker_def Let_def)
  from found grow full held waits raises released scenario show ?thesis
    by (intro conjI)
qed

theorem acquire_release_contract_witness:
  "acquire \<lparr>max_workers = 2, max_idle_time = 60,
            workers = [\<lparr>process = 7, last_used = 1, in_use = True\<rparr>,
                       \<lparr>process = 8, last_used = 2, in_use = False\<rparr>],
            lock_held = False\<rparr>
     (\<lambda>p. True) 5 (Inr 9) =
     (Returns (Some \<lparr>process = 8, last_used = 5, in_use = True\<rparr>),
      \<lparr>max_workers = 2, max_idle_time = 60,
       workers = [\<lparr>process = 7, last_used = 1, in_use = True\<rparr>,
                  \<lparr>process = 8, last_used = 5, in_use = True\<rparr>],
       lock_held = False\<rparr>)
   \<and> acquire \<lparr>max_workers = 2, max_idle_time = 60,
              workers = [\<lparr>process = 7, last_used = 1, in_use = True\<rparr>],
              lock_held = False\<rparr>
       (\<lambda>p. True) 5 (Inr 9) =
       (Returns (Some \<lparr>process = 9, last_used = 5, in_use = True\<rparr>),
        \<lparr>max_workers = 2, max_idle_time = 60,
         workers = [\<lparr>process = 7, last_used = 1, in_use = True\<rparr>,
                    \<lparr>process = 9, last_used = 5, in_use = True\<rparr>],
         lock_held = False\<rparr>)
   \<and> acquire \<lparr>max_workers = 2, max_idle_time = 60,
              workers = [\<lparr>process = 7, last_used = 1, in_use = True\<rparr>,
                         \<lparr>process = 8, last_used = 2, in_use = True\<rparr>],
              lock_held = False\<rparr>
       (\<lambda>p. True) 5 (Inl (OSError ''Resource temporarily unavailable'')) =
       (Returns None,
        \<lparr>max_workers = 2, max_idle_time = 60,
         workers = [\<lparr>process = 7, last_used = 1, in_use = True\<rparr>,
                    \<lparr>process = 8, last_used = 2, in_use = True\<rparr>],
         lock_held = False\<rparr>)
   \<and> (let pool0 = \<lparr>max_workers = 2, max_idle_time = 60, workers = [], lock_held = False\<rparr>;
           (a1, pool1) = acquire pool0 (\<lambda>p. True) 1 (Inr 101);
           (a2, pool2) = acquire pool1 (\<lambda>p. True) 2 (Inr 102);
           (a3, pool3) = acquire pool2 (\<lambda>p. True) 3 (Inr 103);
           (r4, pool4) = release pool3 \<lparr>process = 101, last_used = 1, in_use = True\<rparr> 4;
           (a5, pool5) = acquire pool4 (\<lambda>p. True) 5 (Inr 104)
       in a3 = Returns None
          \<and> a5 = Returns (Some \<lparr>process = 101, last_used = 5, in_use = True\<rparr>))"
proof -
  let ?busy = "\<lparr>process = 7, last_used = 1, in_use = True\<rparr>"
  let ?idle = "\<lparr>process = 8, last_used = 2, in_use = False\<rparr>"
  let ?busy' = "\<lparr>process = 8, last_used = 2, in_use = True\<rparr>"
  let ?all = "\<lambda>p::nat. True"
  let ?pool = "\<lambda>ws. \<lparr>max_workers = 2, max_idle_time = 60, workers = ws, lock_held = False\<rparr>"
  have reuse: "acquire (?pool [?busy, ?idle]) ?all 5 (Inr 9) =
               (Returns (Some (?idle\<lparr>in_use := True, last_used := 5\<rparr>)),
                (?pool [?busy, ?idle])
                  \<lparr>workers := [?busy] @ ?idle\<lparr>in_use := True, last_used := 5\<rparr> # []\<rparr>)"
    using acquire_release_contract
            [where pool = "?pool [?busy, ?idle]"
               and running = ?all and now = 5 and popen = "Inr 9"
               and pre = "[?busy]" and w = ?idle and post = "[]", THEN conjunct1]
    by simp
  have grow: "acquire (?pool [?busy]) ?all 5 (Inr 9) =
               (Returns (Some \<lparr>process = 9, last_used = 5, in_use = True\<rparr>),
                (?pool [?busy])
                  \<lparr>workers := [?busy] @ [\<lparr>process = 9, last_used = 5, in_use = True\<rparr>]\<rparr>)"
    using acquire_release_contract
            [where pool = "?pool [?busy]"
               and running = ?all and now = 5 and new_process = 9,
             THEN conjunct2, THEN conjunct1]
    by simp
  have full: "acquire (?pool [?busy, ?busy']) ?all 5
                (Inl (OSError ''Resource temporarily unavailable'')) =
              (Returns None, ?pool [?busy, ?busy'])"
    using acquire_release_contract
            [where pool = "?pool [?busy, ?busy']"
               and running = ?all and now = 5
               and popen = "Inl (OSError ''Resource temporarily unavailable'')",
             THEN conjunct2, THEN conjunct2, THEN conjunct1]
    by simp
  have scenario:
    "let pool0 = ?pool [];
         (a1, pool1) = acquire pool0 ?all 1 (Inr 101);
         (a2, pool2) = acquire pool1 ?all 2 (Inr 102);
         (a3, pool3) = acquire pool2 ?all 3 (Inr 103);
         released = \<lparr>process = (if True then 101 else 102),
                     last_used = (if True then 1 else 2), in_use = True\<rparr>;
         (r4, pool4) = release pool3 released 4;
         (a5, pool5) = acquire pool4 ?all 5 (Inr 104)
     in a1 = Returns (Some \<lparr>process = 101, last_used = 1, in_use = True\<rparr>)
        \<and> a2 = Returns (Some \<lparr>process = 102, last_used = 2, in_use = True\<rparr>)
        \<and> a3 = Returns None
        \<and> r4 = Returns ()
        \<and> a5 = (if ?all (process released)
                 then Returns (Some (released\<lparr>last_used := 5\<rparr>)) else Returns None)"
    using acquire_release_contract
            [where running = ?all and idle = 60 and pa = 101 and pb = 102
               and pc = "Inr 103" and pe = "Inr 104" and ta = 1 and tb = 2 and tc = 3
               and td = 4 and te = 5 and ra = ?all and rb = ?all and rc = ?all
               and first = True,
             THEN conjunct2, THEN conjunct2, THEN conjunct2, THEN conjunct2,
             THEN conjunct2, THEN conjunct2, THEN conjunct2]
    by simp
  from scenario have scenario':
    "let pool0 = ?pool [];
         (a1, pool1) = acquire pool0 ?all 1 (Inr 101);
         (a2, pool2) = acquire pool1 ?all 2 (Inr 102);
         (a3, pool3) = acquire pool2 ?all 3 (Inr 103);
         (r4, pool4) = release pool3 \<lparr>process = 101, last_used = 1, in_use = True\<rparr> 4;
         (a5, pool5) = acquire pool4 ?all 5 (Inr 104)
     in a3 = Returns None
        \<and> a5 = Returns (Some \<lparr>process = 101, last_used = 5, in_use = True\<rparr>)"
    by (auto simp: Let_def split: prod.splits)
  from reuse grow full scenario' show ?thesis
    by simp
qed

text \<open>
  C7 as stated fails in three ways.
  First conjunct: on a pool with \<open>max_workers = 2\<close>, after two acquisitions, a third that
  returns \<open>None\<close> and the release of the first worker, the next \<open>acquire\<close> returns \<open>None\<close>
  when the process of the released worker (handle 101) has exited meanwhile.
  Second conjunct: \<open>acquire\<close> raises when the process of a new worker cannot be started.
  Third conjunct: \<open>acquire\<close> waits while another thread holds the lock of the pool, as
  \<open>cleanup\<close> and \<open>shutdown\<close> do for seconds.
\<close>

theorem acquire_after_release_counterexample:
  "(let pool0 = \<lparr>max_workers = 2, max_idle_time = 60, workers = [], lock_held = False\<rparr>;
        (a1, pool1) = acquire pool0 (\<lambda>p. True) 1 (Inr 101);
        (a2, pool2) = acquire pool1 (\<lambda>p. True) 2 (Inr 102);
        (a3, pool3) = acquire pool2 (\<lambda>p. True) 3 (Inr 103);
        (r4, pool4) = release pool3 \<lparr>process = 101, last_used = 1, in_use = True\<rparr> 4;
        (a5, pool5) = acquire pool4 (\<lambda>p. p \<noteq> 101) 5 (Inr 104)
    in a1 = Returns (Some \<lparr>process = 101, last_used = 1, in_use = True\<rparr>)
       \<and> a2 = Returns (Some \<lparr>process = 102, last_used = 2, in_use = True\<rparr>)
       \<and> a3 = Returns None \<and> r4 = Returns () \<and> a5 = Returns None)
   \<and> fst (acquire \<lparr>max_workers = 2, max_idle_time = 60, workers = [], lock_held = False\<rparr>
            (\<lambda>p. True) 1 (Inl (OSError ''Resource temporarily unavailable''))) =
       Raises (OSError ''Resource temporarily unavailable'')
   \<and> fst (acquire \<lparr>max_workers = 2, max_idle_time = 60, workers = [], lock_held = True\<rparr>
            (\<lambda>p. True) 1 (Inr 101)) = Waits"
  by (simp add: acquire_def release_def create_worker_def Let_def)

section \<open>Properties of the termination heuristics\<close>

lemma contains_consecutive_failures:
  "sublist ''consecutive failures'' (''Too many consecutive failures ('' @ x @ '')'')"
proof -
  have "''Too many consecutive failures ('' @ x @ '')'' =
          ''Too many '' @ ''consecutive failures'' @ ('' ('' @ x @ '')'')"
    by simp
  then show ?thesis
    unfolding sublist_def by blast
qed

lemma remdups_singleton_iff:
  "length (remdups xs) = Suc 0 \<longleftrightarrow> xs \<noteq> [] \<and> (\<forall>x \<in> set xs. x = last xs)"
proof
  assume "length (remdups xs) = Suc 0"
  then have "card (set xs) = 1"
    by (simp add: length_remdups_card_conv)
  then obtain a where a: "set xs = {a}"
    by (auto simp: card_1_singleton_iff)
  then have "xs \<noteq> []" by auto
  moreover from this a have "last xs = a"
    using last_in_set [of xs] by auto
  ultimately show "xs \<noteq> [] \<and> (\<forall>x \<in> set xs. x = last xs)"
    using a by auto
next
  assume r: "xs \<noteq> [] \<and> (\<forall>x \<in> set xs. x = last xs)"
  then have "set xs = {last xs}"
    using last_in_set [of xs] by auto
  then have "card (set xs) = 1" by simp
  then show "length (remdups xs) = Suc 0"
    by (simp add: length_remdups_card_conv)
qed

text \<open>For a positive \<open>n\<close>, \<^verbatim>\<open>xs[-n:]\<close> is the last \<open>n\<close> elements.\<close>

lemma py_slice_from_neg:
  "1 \<le> n \<Longrightarrow> py_slice_from xs (- n) = drop (length xs - nat n) xs"
proof -
  assume n: "1 \<le> n"
  have "nat (int (length xs) + - n) = length xs - nat n"
    using n by linarith
  with n show ?thesis
    by (simp add: py_slice_from_def)
qed

lemma recent_all_identical:
  assumes "1 \<le> n" and "n \<le> int (length xs)"
  shows "length (remdups (py_slice_from xs (- n))) = Suc 0 \<longleftrightarrow>
           (\<forall>x \<in> set (drop (length xs - nat n) xs). x = last xs)"
proof -
  have ne: "drop (length xs - nat n) xs \<noteq> []"
    using assms by auto
  then have "last (drop (length xs - nat n) xs) = last xs"
    by simp
  with ne show ?thesis
    using assms by (simp add: py_slice_from_neg remdups_singleton_iff)
qed

lemma str_encode_encodable:
  "str_encode s = (if encodable s then Inr (the (utf8_encode s)) else Inl UnicodeEncodeError)"
  by (auto simp: str_encode_def encodable_iff)

lemma failures_from_fresh:
  "consecutive_failures (fold (\<lambda>d s. snd (record_attempt sha s d False)) patches h) =
     consecutive_failures h + int (length patches)
   \<and> max_consecutive_failures (fold (\<lambda>d s. snd (record_attempt sha s d False)) patches h) =
     max_consecutive_failures h"
  by (induction patches arbitrary: h)
     (simp_all add: record_attempt_def Let_def split: sum.splits)

lemma should_terminate_rule1:
  "max_consecutive_failures h \<le> consecutive_failures h \<Longrightarrow>
     should_terminate fmt h =
       Inr (True, ''Too many consecutive failures ('' @ str_int (consecutive_failures h)
                    @ '')'')"
  by (simp add: should_terminate_def)

lemma should_terminate_rule2:
  assumes "1 \<le> max_similar_patches h"
    and "consecutive_failures h < max_consecutive_failures h"
    and "max_similar_patches h \<le> int (length (patch_hashes h))"
    and "\<forall>x \<in> set (drop (length (patch_hashes h) - nat (max_similar_patches h))
                     (patch_hashes h)). x = last (patch_hashes h)"
  shows "should_terminate fmt h = Inr (True, ''Repeated identical patches'')"
  using assms by (simp add: should_terminate_def recent_all_identical)

lemma should_terminate_rule2_short:
  assumes "int (length (patch_hashes h)) < max_similar_patches h"
  shows "should_terminate fmt h \<noteq> Inr (True, ''Repeated identical patches'')"
  using assms by (simp add: should_terminate_def Let_def)

lemma should_terminate_rule3:
  assumes "1 \<le> max_similar_patches h"
    and "consecutive_failures h < max_consecutive_failures h"
    and "\<not> (max_similar_patches h \<le> int (length (patch_hashes h))
            \<and> (\<forall>x \<in> set (drop (length (patch_hashes h) - nat (max_similar_patches h))
                            (patch_hashes h)). x = last (patch_hashes h)))"
    and "min_steps h \<le> total_attempts h" and "total_attempts h \<noteq> 0"
    and "real_of_int (successful_attempts h) / real_of_int (total_attempts h)
           < min_success_rate h"
  shows "should_terminate fmt h =
           Inr (True, ''Success rate too low (''
                  @ fmt (real_of_int (successful_attempts h) / real_of_int (total_attempts h))
                  @ '')'')"
proof (cases "max_similar_patches h \<le> int (length (patch_hashes h))")
  case True
  with assms show ?thesis
    by (simp add: should_terminate_def recent_all_identical)
next
  case False
  with assms show ?thesis
    by (simp add: should_terminate_def)
qed

lemma should_terminate_otherwise:
  assumes "1 \<le> max_similar_patches h"
    and "consecutive_failures h < max_consecutive_failures h"
    and "\<not> (max_similar_patches h \<le> int (length (patch_hashes h))
            \<and> (\<forall>x \<in> set (drop (length (patch_hashes h) - nat (max_similar_patches h))
                            (patch_hashes h)). x = last (patch_hashes h)))"
    and "total_attempts h < min_steps h
         \<or> (total_attempts h \<noteq> 0
            \<and> \<not> real_of_int (successful_attempts h) / real_of_int (total_attempts h)
                   < min_success_rate h)"
  shows "should_terminate fmt h = Inr (False, '''')"
proof (cases "max_similar_patches h \<le> int (length (patch_hashes h))")
  case True
  with assms show ?thesis
    by (auto simp: should_terminate_def recent_all_identical)
next
  case False
  with assms show ?thesis
    by (auto simp: should_terminate_def)
qed

text \<open>
  C4 (amended). \<open>record_attempt\<close> increments \<open>total_attempts\<close>; on success it increments
  \<open>successful_attempts\<close> and resets \<open>consecutive_failures\<close> to 0; on failure it increments
  \<open>consecutive_failures\<close>; all this whether or not the call then raises. For a patch that
  UTF-8 can encode (no surrogate in it) the call returns and has appended the digest of
  the encoded patch, truncated to 16 characters, to the buffer of at most 20 entries,
  dropping the oldest entry of a full buffer; for any other patch it raises
  \<^verbatim>\<open>UnicodeEncodeError\<close> and leaves the buffer as it was. \<open>should_terminate\<close> decides in this
  order: (1) \<open>consecutive_failures\<close> at least \<open>max_consecutive_failures\<close>: true, with the
  reason ``Too many consecutive failures (n)'', which contains ``consecutive failures'';
  and, for \<open>max_similar_patches\<close> at least 1, (2) the buffer holds at least
  \<open>max_similar_patches\<close> entries and the most recent \<open>max_similar_patches\<close> of them are
  identical: true, with the reason ``Repeated identical patches'' (a shorter buffer never
  gives this result); (3) at least one attempt is recorded, \<open>total_attempts\<close> is at least
  \<open>min_steps\<close> and the success rate is below \<open>min_success_rate\<close>: true, with the reason
  ``Success rate too low (r)'', \<open>r\<close> the formatted rate; (4) when no rule applies and the
  rate is defined or not asked for: false with an empty reason. From a fresh state, \<open>k\<close>
  failing attempts leave \<open>consecutive_failures = k\<close>, so exactly
  \<open>max_consecutive_failures\<close> of them give the result of rule (1).
\<close>

theorem termination_heuristics_contract:
  "total_attempts (snd (record_attempt sha h patch success)) = total_attempts h + 1
   \<and> (success \<longrightarrow>
        successful_attempts (snd (record_attempt sha h patch success)) =
          successful_attempts h + 1
        \<and> consecutive_failures (snd (record_attempt sha h patch success)) = 0)
   \<and> (\<not> success \<longrightarrow>
        consecutive_failures (snd (record_attempt sha h patch success)) =
          consecutive_failures h + 1
        \<and> successful_attempts (snd (record_attempt sha h patch success)) =
            successful_attempts h)
   \<and> (encodable patch \<longrightarrow>
        fst (record_attempt sha h patch success) = Inr ()
        \<and> (length (patch_hashes h) \<le> 20 \<longrightarrow>
             patch_hashes (snd (record_attempt sha h patch success)) =
               (if length (patch_hashes h) < 20 then patch_hashes h else tl (patch_hashes h))
                 @ [take 16 (sha (projr (str_encode patch)))]))
   \<and> (\<not> encodable patch \<longrightarrow>
        fst (record_attempt sha h patch success) = Inl UnicodeEncodeError
        \<and> patch_hashes (snd (record_attempt sha h patch success)) = patch_hashes h)
   \<and> (max_consecutive_failures h \<le> consecutive_failures h \<longrightarrow>
        should_terminate fmt h =
          Inr (True, ''Too many consecutive failures ('' @ str_int (consecutive_failures h)
                       @ '')'')
        \<and> sublist ''consecutive failures'' (snd (projr (should_terminate fmt h))))
   \<and> (1 \<le> max_similar_patches h \<longrightarrow>
        (consecutive_failures h < max_consecutive_failures h
         \<and> max_similar_patches h \<le> int (length (patch_hashes h))
         \<and> (\<forall>x \<in> set (drop (length (patch_hashes h) - nat (max_similar_patches h))
                          (patch_hashes h)). x = last (patch_hashes h)) \<longrightarrow>
         should_terminate fmt h = Inr (True, ''Repeated identical patches''))
        \<and> (int (length (patch_hashes h)) < max_similar_patches h \<longrightarrow>
           should_terminate fmt h \<noteq> Inr (True, ''Repeated identical patches''))
        \<and> (consecutive_failures h < max_consecutive_failures h
           \<and> \<not> (max_similar_patches h \<le> int (length (patch_hashes h))
                \<and> (\<forall>x \<in> set (drop (length (patch_hashes h) - nat (max_similar_patches h))
                                (patch_hashes h)). x = last (patch_hashes h)))
           \<and> min_steps h \<le> total_attempts h \<and> total_attempts h \<noteq> 0
           \<and> real_of_int (successful_attempts h) / real_of_int (total_attempts h)
                < min_success_rate h \<longrightarrow>
           should_terminate fmt h =
             Inr (True, ''Success rate too low (''
                    @ fmt (real_of_int (successful_attempts h) / real_of_int (total_attempts h))
                    @ '')''))
        \<and> (consecutive_failures h < max_consecutive_failures h
           \<and> \<not> (max_similar_patches h \<le> int (length (patch_hashes h))
                \<and> (\<forall>x \<in> set (drop (length (patch_hashes h) - nat (max_similar_patches h))
                                (patch_hashes h)). x = last (patch_hashes h)))
           \<and> (total_attempts h < min_steps h
               \<or> (total_attempts h \<noteq> 0
                  \<and> \<not> real_of_int (successful_attempts h) / real_of_int (total_attempts h)
                         < min_success_rate h)) \<longrightarrow>
           should_terminate fmt h = Inr (False, '''')))
   \<and> consecutive_failures (fold (\<lambda>d s. snd (record_attempt sha s d False)) patches (reset h)) =
       int (length patches)
   \<and> (int (length patches) = max_consecutive_failures h \<longrightarrow>
        should_terminate fmt (fold (\<lambda>d s. snd (record_attempt sha s d False)) patches (reset h)) =
          Inr (True, ''Too many consecutive failures ('' @ str_int (int (length patches))
                       @ '')''))"
proof -
  have rec: "total_attempts (snd (record_attempt sha h patch success)) = total_attempts h + 1"
    "success \<longrightarrow>
        successful_attempts (snd (record_attempt sha h patch success)) =
          successful_attempts h + 1
        \<and> consecutive_failures (snd (record_attempt sha h patch success)) = 0"
    "\<not> success \<longrightarrow>
        consecutive_failures (snd (record_attempt sha h patch success)) =
          consecutive_failures h + 1
        \<and> successful_attempts (snd (record_attempt sha h patch success)) =
            successful_attempts h"
    by (simp_all add: record_attempt_def Let_def split: sum.splits)
  have buf: "encodable patch \<longrightarrow>
        fst (record_attempt sha h patch success) = Inr ()
        \<and> (length (patch_hashes h) \<le> 20 \<longrightarrow>
             patch_hashes (snd (record_attempt sha h patch success)) =
               (if length (patch_hashes h) < 20 then patch_hashes h else tl (patch_hashes h))
                 @ [take 16 (sha (projr (str_encode patch)))])"
    by (cases "patch_hashes h")
       (auto simp: record_attempt_def Let_def deque_append_def drop_Suc
          str_encode_encodable)
  have raise: "\<not> encodable patch \<longrightarrow>
        fst (record_attempt sha h patch success) = Inl UnicodeEncodeError
        \<and> patch_hashes (snd (record_attempt sha h patch success)) = patch_hashes h"
    by (simp add: record_attempt_def Let_def str_encode_encodable)
  let ?run = "fold (\<lambda>d s. snd (record_attempt sha s d False)) patches (reset h)"
  have run: "consecutive_failures ?run = int (length patches)"
    "max_consecutive_failures ?run = max_consecutive_failures h"
    using failures_from_fresh [of sha patches "reset h"] by (simp_all add: reset_def)
  have particular: "int (length patches) = max_consecutive_failures h \<longrightarrow>
        should_terminate fmt ?run =
          Inr (True, ''Too many consecutive failures ('' @ str_int (int (length patches))
                       @ '')'')"
    using should_terminate_rule1 [of ?run fmt] run by simp
  have rule1: "max_consecutive_failures h \<le> consecutive_failures h \<longrightarrow>
        should_terminate fmt h =
          Inr (True, ''Too many consecutive failures ('' @ str_int (consecutive_failures h)
                       @ '')'')
        \<and> sublist ''consecutive failures'' (snd (projr (should_terminate fmt h)))"
    using contains_consecutive_failures [of "str_int (consecutive_failures h)"]
    by (simp add: should_terminate_rule1)
  have rules: "1 \<le> max_similar_patches h \<longrightarrow>
        (consecutive_failures h < max_consecutive_failures h
         \<and> max_similar_patches h \<le> int (length (patch_hashes h))
         \<and> (\<forall>x \<in> set (drop (length (patch_hashes h) - nat (max_similar_patches h))
                          (patch_hashes h)). x = last (patch_hashes h)) \<longrightarrow>
         should_terminate fmt h = Inr (True, ''Repeated identical patches''))
        \<and> (int (length (patch_hashes h)) < max_similar_patches h \<longrightarrow>
           should_terminate fmt h \<noteq> Inr (True, ''Repeated identical patches''))
        \<and> (consecutive_failures h < max_consecutive_failures h
           \<and> \<not> (max_similar_patches h \<le> int (length (patch_hashes h))
                \<and> (\<forall>x \<in> set (drop (length (patch_hashes h) - nat (max_similar_patches h))
                                (patch_hashes h)). x = last (patch_hashes h)))
           \<and> min_steps h \<le> total_attempts h \<and> total_attempts h \<noteq> 0
           \<and> real_of_int (successful_attempts h) / real_of_int (total_attempts h)
                < min_success_rate h \<longrightarrow>
           should_terminate fmt h =
             Inr (True, ''Success rate too low (''
                    @ fmt (real_of_int (successful_attempts h) / real_of_int (total_attempts h))
                    @ '')''))
        \<and> (consecutive_failures h < max_consecutive_failures h
           \<and> \<not> (max_similar_patches h \<le> int (length (patch_hashes h))
                \<and> (\<forall>x \<in> set (drop (length (patch_hashes h) - nat (max_similar_patches h))
                                (patch_hashes h)). x = last (patch_hashes h)))
           \<and> (total_attempts h < min_steps h
               \<or> (total_attempts h \<noteq> 0
                  \<and> \<not> real_of_int (successful_attempts h) / real_of_int (total_attempts h)
                         < min_success_rate h)) \<longrightarrow>
           should_terminate fmt h = Inr (False, ''''))"
  proof (intro impI conjI)
    assume "1 \<le> max_similar_patches h"
      and "consecutive_failures h < max_consecutive_failures h
         \<and> max_similar_patches h \<le> int (length (patch_hashes h))
         \<and> (\<forall>x \<in> set (drop (length (patch_hashes h) - nat (max_similar_patches h))
                          (patch_hashes h)). x = last (patch_hashes h))"
    then show "should_terminate fmt h = Inr (True, ''Repeated identical patches'')"
      by (intro should_terminate_rule2) simp_all
  next
    assume "int (length (patch_hashes h)) < max_similar_patches h"
    then show "should_terminate fmt h \<noteq> Inr (True, ''Repeated identical patches'')"
      by (rule should_terminate_rule2_short)
  next
    assume "1 \<le> max_similar_patches h"
      and "consecutive_failures h < max_consecutive_failures h
           \<and> \<not> (max_similar_patches h \<le> int (length (patch_hashes h))
                \<and> (\<forall>x \<in> set (drop (length (patch_hashes h) - nat (max_similar_patches h))
                                (patch_hashes h)). x = last (patch_hashes h)))
           \<and> min_steps h \<le> total_attempts h \<and> total_attempts h \<noteq> 0
           \<and> real_of_int (successful_attempts h) / real_of_int (total_attempts h)
                < min_success_rate h"
    then show "should_terminate fmt h =
             Inr (True, ''Success rate too low (''
                    @ fmt (real_of_int (successful_attempts h) / real_of_int (total_attempts h))
                    @ '')'')"
      by (intro should_terminate_rule3) simp_all
  next
    assume "1 \<le> max_similar_patches h"
      and "consecutive_failures h < max_consecutive_failures h
           \<and> \<not> (max_similar_patches h \<le> int (length (patch_hashes h))
                \<and> (\<forall>x \<in> set (drop (length (patch_hashes h) - nat (max_similar_patches h))
                                (patch_hashes h)). x = last (patch_hashes h)))
           \<and> (total_attempts h < min_steps h
               \<or> (total_attempts h \<noteq> 0
                  \<and> \<not> real_of_int (successful_attempts h) / real_of_int (total_attempts h)
                         < min_success_rate h))"
    then show "should_terminate fmt h = Inr (False, '''')"
      by (intro should_terminate_otherwise) simp_all
  qed
  from rec(1) rec(2) rec(3) buf raise rule1 rules run(1) particular show ?thesis
    by (intro conjI)
qed

theorem termination_heuristics_contract_witness:
  "total_attempts
     (snd (record_attempt (\<lambda>b. ''ab'')
        \<lparr>min_steps = 3, max_consecutive_failures = 5, max_similar_patches = 3,
         min_success_rate = 1/20, patch_hashes = [], consecutive_failures = 0,
         total_attempts = 0, successful_attempts = 0\<rparr> [97] True)) = 1
   \<and> record_attempt (\<lambda>b. if b = [97] then ''ca978112ca1bbdcafac231b39a23dc4d'' else ''e3'')
       \<lparr>min_steps = 3, max_consecutive_failures = 5, max_similar_patches = 3,
        min_success_rate = 1/20, patch_hashes = [''0000''], consecutive_failures = 2,
        total_attempts = 2, successful_attempts = 0\<rparr> [97] True =
       (Inr (),
        \<lparr>min_steps = 3, max_consecutive_failures = 5, max_similar_patches = 3,
         min_success_rate = 1/20, patch_hashes = [''0000'', ''ca978112ca1bbdca''],
         consecutive_failures = 0, total_attempts = 3, successful_attempts = 1\<rparr>)
   \<and> record_attempt (\<lambda>b. ''ab'')
       \<lparr>min_steps = 3, max_consecutive_failures = 5, max_similar_patches = 3,
        min_success_rate = 1/20, patch_hashes = [''0000''], consecutive_failures = 2,
        total_attempts = 2, successful_attempts = 0\<rparr> [0xD800] False =
       (Inl UnicodeEncodeError,
        \<lparr>min_steps = 3, max_consecutive_failures = 5, max_similar_patches = 3,
         min_success_rate = 1/20, patch_hashes = [''0000''],
         consecutive_failures = 3, total_attempts = 3, successful_attempts = 0\<rparr>)
   \<and> should_terminate (\<lambda>r. ''0.0%'')
       \<lparr>min_steps = 3, max_consecutive_failures = 5, max_similar_patches = 3,
        min_success_rate = 1/20, patch_hashes = [''x'', ''a'', ''a'', ''a''],
        consecutive_failures = 0, total_attempts = 4, successful_attempts = 4\<rparr> =
       Inr (True, ''Repeated identical patches'')
   \<and> should_terminate (\<lambda>r. ''0.0%'')
       \<lparr>min_steps = 3, max_consecutive_failures = 5, max_similar_patches = 3,
        min_success_rate = 1/20, patch_hashes = [''a'', ''b'', ''c''],
        consecutive_failures = 3, total_attempts = 3, successful_attempts = 0\<rparr> =
       Inr (True, ''Success rate too low (0.0%)'')
   \<and> should_terminate (\<lambda>r. ''0.0%'')
       \<lparr>min_steps = 3, max_consecutive_failures = 5, max_similar_patches = 3,
        min_success_rate = 1/20, patch_hashes = [''a'', ''b''],
        consecutive_failures = 1, total_attempts = 2, successful_attempts = 1\<rparr> =
       Inr (False, [])
   \<and> should_terminate (\<lambda>r. ''0.0%'')
       (fold (\<lambda>d s. snd (record_attempt (\<lambda>b. ''ab'') s d False))
          [[97], [98], [99], [100], [101]]
          (reset \<lparr>min_steps = 3, max_consecutive_failures = 5, max_similar_patches = 3,
                  min_success_rate = 1/20, patch_hashes = [''z''], consecutive_failures = 2,
                  total_attempts = 9, successful_attempts = 1\<rparr>)) =
       Inr (True, ''Too many consecutive failures (5)'')"
proof -
  let ?fmt = "\<lambda>r::real. ''0.0%''"
  let ?sha = "\<lambda>b::pybytes. ''ab''"
  let ?sha' = "\<lambda>b::pybytes. if b = [97] then ''ca978112ca1bbdcafac231b39a23dc4d'' else ''e3''"
  let ?h = "\<lparr>min_steps = 3, max_consecutive_failures = 5, max_similar_patches = 3,
             min_success_rate = 1/20, patch_hashes = [''0000''], consecutive_failures = 2,
             total_attempts = 2, successful_attempts = 0\<rparr>"
  have five: "str_int 5 = ''5''"
    by code_simp
  have enc: "encodable [97]" "\<not> encodable [0xD800]" "str_encode [97] = Inr [97]"
    by (simp_all add: encodable_def str_encode_def utf8_encode_char_def)
  have a: "total_attempts
     (snd (record_attempt ?sha
        \<lparr>min_steps = 3, max_consecutive_failures = 5, max_similar_patches = 3,
         min_success_rate = 1/20, patch_hashes = [], consecutive_failures = 0,
         total_attempts = 0, successful_attempts = 0\<rparr> [97] True)) = 1"
    using termination_heuristics_contract
            [where sha = ?sha and patch = "[97]" and success = True
               and h = "\<lparr>min_steps = 3, max_consecutive_failures = 5,
                         max_similar_patches = 3, min_success_rate = 1/20,
                         patch_hashes = [], consecutive_failures = 0,
                         total_attempts = 0, successful_attempts = 0\<rparr>",
             THEN conjunct1]
    by simp
  have a1: "fst (record_attempt ?sha' ?h [97] True) = Inr ()
            \<and> patch_hashes (snd (record_attempt ?sha' ?h [97] True)) =
                [''0000'', ''ca978112ca1bbdca'']"
    using termination_heuristics_contract
            [where sha = ?sha' and patch = "[97]" and success = True and h = ?h,
             THEN conjunct2, THEN conjunct2, THEN conjunct2, THEN conjunct1]
    by (simp add: enc)
  have a2: "total_attempts (snd (record_attempt ?sha' ?h [97] True)) = 3"
    using termination_heuristics_contract
            [where sha = ?sha' and patch = "[97]" and success = True and h = ?h,
             THEN conjunct1]
    by simp
  have a3: "successful_attempts (snd (record_attempt ?sha' ?h [97] True)) = 1
            \<and> consecutive_failures (snd (record_attempt ?sha' ?h [97] True)) = 0"
    using termination_heuristics_contract
            [where sha = ?sha' and patch = "[97]" and success = True and h = ?h,
             THEN conjunct2, THEN conjunct1]
    by simp
  have cfg: "min_steps (snd (record_attempt s h' p ok)) = min_steps h'
             \<and> max_consecutive_failures (snd (record_attempt s h' p ok)) =
                 max_consecutive_failures h'
             \<and> max_similar_patches (snd (record_attempt s h' p ok)) = max_similar_patches h'
             \<and> min_success_rate (snd (record_attempt s h' p ok)) = min_success_rate h'"
    for s h' p ok
    by (simp add: record_attempt_def Let_def split: sum.splits)
  have ok: "record_attempt ?sha' ?h [97] True =
       (Inr (),
        \<lparr>min_steps = 3, max_consecutive_failures = 5, max_similar_patches = 3,
         min_success_rate = 1/20, patch_hashes = [''0000'', ''ca978112ca1bbdca''],
         consecutive_failures = 0, total_attempts = 3, successful_attempts = 1\<rparr>)"
    using a1 a2 a3 cfg [of ?sha' ?h "[97]" True]
    by (intro prod_eqI) simp_all
  have b1: "fst (record_attempt ?sha ?h [0xD800] False) = Inl UnicodeEncodeError
            \<and> patch_hashes (snd (record_attempt ?sha ?h [0xD800] False)) = [''0000'']"
    using termination_heuristics_contract
            [where sha = ?sha and patch = "[0xD800]" and success = False and h = ?h,
             THEN conjunct2, THEN conjunct2, THEN conjunct2, THEN conjunct2,
             THEN conjunct1]
    by (simp add: enc)
  have b2: "total_attempts (snd (record_attempt ?sha ?h [0xD800] False)) = 3"
    using termination_heuristics_contract
            [where sha = ?sha and patch = "[0xD800]" and success = False and h = ?h,
             THEN conjunct1]
    by simp
  have b3: "consecutive_failures (snd (record_attempt ?sha ?h [0xD800] False)) = 3
            \<and> successful_attempts (snd (record_attempt ?sha ?h [0xD800] False)) = 0"
    using termination_heuristics_contract
            [where sha = ?sha and patch = "[0xD800]" and success = False and h = ?h,
             THEN conjunct2, THEN conjunct2, THEN conjunct1]
    by simp
  have raised: "record_attempt ?sha ?h [0xD800] False =
       (Inl UnicodeEncodeError,
        \<lparr>min_steps = 3, max_consecutive_failures = 5, max_similar_patches = 3,
         min_success_rate = 1/20, patch_hashes = [''0000''],
         consecutive_failures = 3, total_attempts = 3, successful_attempts = 0\<rparr>)"
    using b1 b2 b3 cfg [of ?sha ?h "[0xD800]" False]
    by (intro prod_eqI) simp_all
  have b: "should_terminate ?fmt
       \<lparr>min_steps = 3, max_consecutive_failures = 5, max_similar_patches = 3,
        min_success_rate = 1/20, patch_hashes = [''x'', ''a'', ''a'', ''a''],
        consecutive_failures = 0, total_attempts = 4, successful_attempts = 4\<rparr> =
       Inr (True, ''Repeated identical patches'')"
    using termination_heuristics_contract
            [where fmt = ?fmt
               and h = "\<lparr>min_steps = 3, max_consecutive_failures = 5,
                         max_similar_patches = 3, min_success_rate = 1/20,
                         patch_hashes = [''x'', ''a'', ''a'', ''a''],
                         consecutive_failures = 0,
                         total_attempts = 4, successful_attempts = 4\<rparr>",
             THEN conjunct2, THEN conjunct2, THEN conjunct2, THEN conjunct2,
             THEN conjunct2, THEN conjunct2, THEN conjunct1]
    by simp
  have c: "should_terminate ?fmt
       \<lparr>min_steps = 3, max_consecutive_failures = 5, max_similar_patches = 3,
        min_success_rate = 1/20, patch_hashes = [''a'', ''b'', ''c''],
        consecutive_failures = 3, total_attempts = 3, successful_attempts = 0\<rparr> =
       Inr (True, ''Success rate too low (0.0%)'')"
    using termination_heuristics_contract
            [where fmt = ?fmt
               and h = "\<lparr>min_steps = 3, max_consecutive_failures = 5,
                         max_similar_patches = 3, min_success_rate = 1/20,
                         patch_hashes = [''a'', ''b'', ''c''],
                         consecutive_failures = 3,
                         total_attempts = 3, successful_attempts = 0\<rparr>",
             THEN conjunct2, THEN conjunct2, THEN conjunct2, THEN conjunct2,
             THEN conjunct2, THEN conjunct2, THEN conjunct1]
    by simp
  have d: "should_terminate ?fmt
       \<lparr>min_steps = 3, max_consecutive_failures = 5, max_similar_patches = 3,
        min_success_rate = 1/20, patch_hashes = [''a'', ''b''],
        consecutive_failures = 1, total_attempts = 2, successful_attempts = 1\<rparr> =
       Inr (False, [])"
    using termination_heuristics_contract
            [where fmt = ?fmt
               and h = "\<lparr>min_steps = 3, max_consecutive_failures = 5,
                         max_similar_patches = 3, min_success_rate = 1/20,
                         patch_hashes = [''a'', ''b''],
                         consecutive_failures = 1,
                         total_attempts = 2, successful_attempts = 1\<rparr>",
             THEN conjunct2, THEN conjunct2, THEN conjunct2, THEN conjunct2,
             THEN conjunct2, THEN conjunct2, THEN conjunct1]
    by simp
  have e: "should_terminate ?fmt
       (fold (\<lambda>d s. snd (record_attempt ?sha s d False)) [[97], [98], [99], [100], [101]]
          (reset \<lparr>min_steps = 3, max_consecutive_failures = 5, max_similar_patches = 3,
                  min_success_rate = 1/20, patch_hashes = [''z''], consecutive_failures = 2,
                  total_attempts = 9, successful_attempts = 1\<rparr>)) =
       Inr (True, ''Too many consecutive failures (5)'')"
    using termination_heuristics_contract
            [where fmt = ?fmt and sha = ?sha
               and patches = "[[97], [98], [99], [100], [101]]"
               and h = "\<lparr>min_steps = 3, max_consecutive_failures = 5,
                         max_similar_patches = 3, min_success_rate = 1/20,
                         patch_hashes = [''z''], consecutive_failures = 2,
                         total_attempts = 9, successful_attempts = 1\<rparr>",
             THEN conjunct2, THEN conjunct2, THEN conjunct2, THEN conjunct2,
             THEN conjunct2, THEN conjunct2, THEN conjunct2, THEN conjunct2]
    by (simp add: five del: fold_simps)
  from a ok raised b c d e show ?thesis
    by (intro conjI)
qed

text \<open>
  C4 as stated fails. With \<open>min_steps = 0\<close> and no attempt recorded, no rule applies and
  the claim promises ``no termination'', but the rate is computed as \<open>0 / 0\<close> and
  \<open>should_terminate\<close> raises \<^verbatim>\<open>ZeroDivisionError\<close> (first conjunct). With the default
  configuration, after three identical patches the reason returned is ``Repeated identical
  patches'', which is not the string ``repeated identical patches'' of the claim (second
  and third conjuncts). And \<open>record_attempt\<close> does not always append: for a patch that holds
  a lone surrogate it raises after updating the counters, and the buffer stays empty
  (fourth conjunct).
\<close>

theorem termination_heuristics_counterexample:
  "should_terminate (\<lambda>r. ''0.0%'')
     \<lparr>min_steps = 0, max_consecutive_failures = 5, max_similar_patches = 3,
      min_success_rate = 1/20, patch_hashes = [], consecutive_failures = 0,
      total_attempts = 0, successful_attempts = 0\<rparr> = Inl ZeroDivisionError
   \<and> should_terminate (\<lambda>r. ''0.0%'')
       (fold (\<lambda>d s. snd (record_attempt (\<lambda>b. ''ab'') s d True)) [[112], [112], [112]]
          \<lparr>min_steps = 3, max_consecutive_failures = 5, max_similar_patches = 3,
           min_success_rate = 1/20, patch_hashes = [], consecutive_failures = 0,
           total_attempts = 0, successful_attempts = 0\<rparr>) =
       Inr (True, ''Repeated identical patches'')
   \<and> should_terminate (\<lambda>r. ''0.0%'')
       (fold (\<lambda>d s. snd (record_attempt (\<lambda>b. ''ab'') s d True)) [[112], [112], [112]]
          \<lparr>min_steps = 3, max_consecutive_failures = 5, max_similar_patches = 3,
           min_success_rate = 1/20, patch_hashes = [], consecutive_failures = 0,
           total_attempts = 0, successful_attempts = 0\<rparr>) \<noteq>
       Inr (True, ''repeated identical patches'')
   \<and> record_attempt (\<lambda>b. ''ab'')
       \<lparr>min_steps = 3, max_consecutive_failures = 5, max_similar_patches = 3,
        min_success_rate = 1/20, patch_hashes = [], consecutive_failures = 0,
        total_attempts = 0, successful_attempts = 0\<rparr> [0xD800] True =
       (Inl UnicodeEncodeError,
        \<lparr>min_steps = 3, max_consecutive_failures = 5, max_similar_patches = 3,
         min_success_rate = 1/20, patch_hashes = [], consecutive_failures = 0,
         total_attempts = 1, successful_attempts = 1\<rparr>)"
  by (simp add: should_terminate_def record_attempt_def deque_append_def py_slice_from_def
        str_encode_def utf8_encode_char_def)

section \<open>Properties of retry with backoff\<close>

lemma retried_step: "a < b \<Longrightarrow>
    retried cfg a b =
      Invoke a # Sleep (min (base_delay cfg * exponential_base cfg ^ a) (max_delay cfg))
        # retried cfg (Suc a) b"
  by (simp add: retried_def upt_conv_Cons)

lemma retried_empty [simp]: "retried cfg a a = []"
  by (simp add: retried_def)

lemma invocations_retried:
  "length (filter is_invoke (retried cfg a b)) = b - a"
  unfolding retried_def by (induction b) (simp_all add: Suc_diff_le)

lemma backoff_delay_value:
  "backoff_delay cfg k = Inr d \<Longrightarrow>
     d = min (base_delay cfg * exponential_base cfg ^ k) (max_delay cfg)"
  by (auto simp: backoff_delay_def float_pow_def split: if_splits)

text \<open>
  The loop from attempt \<open>a\<close> on, when attempts \<open>a, \<dots>, k - 1\<close> fail with retryable errors
  and the sleeps between them are accepted.
\<close>

lemma retry_loop_prefix:
  assumes fails: "\<forall>j. a \<le> j \<and> j < k \<longrightarrow> (\<exists>e. func j = Inl e \<and> retryable e)"
    and sleeps: "\<forall>j. a \<le> j \<and> j < k \<longrightarrow> (\<exists>d. backoff_delay cfg j = Inr d \<and> sleep d = None)"
    and "a \<le> k" and "k \<le> m" and "int k \<le> max_retries cfg"
  shows "\<exists>prev'. retry_loop cfg retryable sleep func [a..<m] prev =
           (let (result, events) = retry_loop cfg retryable sleep func [k..<m] prev'
            in (result, retried cfg a k @ events))"
  using assms
proof (induction "k - a" arbitrary: a prev)
  case 0
  then show ?case by (auto intro!: exI [of _ prev])
next
  case (Suc n)
  then have ak: "a < k" by simp
  from Suc.prems ak obtain e where e: "func a = Inl e" "retryable e"
    by blast
  from Suc.prems ak obtain d where d: "backoff_delay cfg a = Inr d" "sleep d = None"
    by blast
  have dval: "d = min (base_delay cfg * exponential_base cfg ^ a) (max_delay cfg)"
    using d(1) by (rule backoff_delay_value)
  have "a < m"
    using ak Suc.prems by linarith
  then have range: "[a..<m] = a # [Suc a..<m]"
    by (rule upt_conv_Cons)
  have lt: "int a < max_retries cfg"
    using ak Suc.prems by simp
  have "n = k - Suc a" using Suc.hyps by simp
  from Suc.hyps(1) [OF this, of "Some e"] Suc.prems ak
  obtain prev' where rest:
    "retry_loop cfg retryable sleep func [Suc a..<m] (Some e) =
       (let (result, events) = retry_loop cfg retryable sleep func [k..<m] prev'
        in (result, retried cfg (Suc a) k @ events))"
    by auto
  show ?case
    using ak
    by (intro exI [of _ prev'])
       (simp add: range e d lt rest retried_step flip: dval split: prod.splits)
qed

lemma retry_loop_success:
  assumes "\<forall>j. j < k \<longrightarrow> (\<exists>e. func j = Inl e \<and> retryable e)"
    and "\<forall>j. j < k \<longrightarrow> (\<exists>d. backoff_delay cfg j = Inr d \<and> sleep d = None)"
    and "int k \<le> max_retries cfg" and "func k = Inr v"
  shows "retry_wrapper cfg retryable sleep func = (Inr v, retried cfg 0 k @ [Invoke k])"
proof -
  let ?m = "nat (max_retries cfg + 1)"
  have km: "k < ?m"
    using assms(3) by linarith
  then have range: "[k..<?m] = k # [Suc k..<?m]"
    by (rule upt_conv_Cons)
  from retry_loop_prefix [of 0 k func retryable cfg sleep ?m None] assms km
  obtain prev' where
    "retry_loop cfg retryable sleep func [0..<?m] None =
       (let (result, events) = retry_loop cfg retryable sleep func [k..<?m] prev'
        in (result, retried cfg 0 k @ events))"
    by auto
  then show ?thesis
    unfolding retry_wrapper_def range by (simp add: assms(4))
qed

lemma retry_loop_failure:
  assumes "\<forall>j. j < k \<longrightarrow> (\<exists>e. func j = Inl e \<and> retryable e)"
    and "\<forall>j. j < k \<longrightarrow> (\<exists>d. backoff_delay cfg j = Inr d \<and> sleep d = None)"
    and "int k \<le> max_retries cfg" and "func k = Inl e"
    and "\<not> retryable e \<or> int k = max_retries cfg"
  shows "retry_wrapper cfg retryable sleep func =
           (Inl (Raised e), retried cfg 0 k @ [Invoke k])"
proof -
  let ?m = "nat (max_retries cfg + 1)"
  have km: "k < ?m"
    using assms(3) by linarith
  then have range: "[k..<?m] = k # [Suc k..<?m]"
    by (rule upt_conv_Cons)
  from retry_loop_prefix [of 0 k func retryable cfg sleep ?m None] assms km
  obtain prev' where
    "retry_loop cfg retryable sleep func [0..<?m] None =
       (let (result, events) = retry_loop cfg retryable sleep func [k..<?m] prev'
        in (result, retried cfg 0 k @ events))"
    by auto
  then show ?thesis
    unfolding retry_wrapper_def range using assms(5) by (auto simp: assms(4))
qed

lemma backoff_delay_capped: "backoff_delay cfg k = Inr d \<Longrightarrow> d \<le> max_delay cfg"
  by (auto dest: backoff_delay_value)

lemma backoff_delay_mono:
  assumes "0 \<le> base_delay cfg" and "1 \<le> exponential_base cfg"
    and "backoff_delay cfg k = Inr d" and "backoff_delay cfg (Suc k) = Inr d'"
  shows "d \<le> d'"
proof -
  have "exponential_base cfg ^ k \<le> exponential_base cfg ^ Suc k"
    using assms(2) by (intro power_increasing) simp_all
  then have "base_delay cfg * exponential_base cfg ^ k
               \<le> base_delay cfg * exponential_base cfg ^ Suc k"
    using assms(1) by (rule mult_left_mono)
  then have "min (base_delay cfg * exponential_base cfg ^ k) (max_delay cfg)
               \<le> min (base_delay cfg * exponential_base cfg ^ Suc k) (max_delay cfg)"
    by (rule min.mono) simp
  then show ?thesis
    using backoff_delay_value [OF assms(3)] backoff_delay_value [OF assms(4)] by simp
qed

text \<open>
  C5 (amended). Let \<open>max_retries\<close> be non-negative and let every delay that is slept be
  computed and accepted: for each attempt below \<open>max_retries\<close> the power
  \<open>exponential_base ^ attempt\<close> is within the doubles and \<^verbatim>\<open>time.sleep\<close> accepts the delay
  (it rejects a negative one, and one beyond what the platform can time). If every
  invocation fails with a retryable error, the wrapper invokes the function exactly
  \<open>max_retries + 1\<close> times, sleeps \<open>min (base_delay * exponential_base ^ attempt) max_delay\<close>
  between consecutive attempts and nowhere else, and raises the very error of the last
  invocation. Every delay computed is that minimum and so at most \<open>max_delay\<close>; the delays
  are non-decreasing when \<open>base_delay\<close> is non-negative and \<open>exponential_base\<close> is at least
  1. If the invocation of attempt \<open>k\<close> succeeds after retryable failures of all earlier
  ones, the wrapper returns its value and invokes nothing further.
\<close>

theorem retry_with_backoff_contract:
  assumes "0 \<le> max_retries cfg"
    and "\<forall>j. int j < max_retries cfg \<longrightarrow>
           (\<exists>d. backoff_delay cfg j = Inr d \<and> sleep d = None)"
  shows
    "((\<forall>j. int j \<le> max_retries cfg \<longrightarrow> (\<exists>e. func j = Inl e \<and> retryable e)) \<longrightarrow>
        retry_wrapper cfg retryable sleep func =
          (Inl (Raised (projl (func (nat (max_retries cfg))))),
           retried cfg 0 (nat (max_retries cfg)) @ [Invoke (nat (max_retries cfg))])
        \<and> length (filter is_invoke (snd (retry_wrapper cfg retryable sleep func))) =
            nat (max_retries cfg) + 1)
     \<and> (\<forall>k d. backoff_delay cfg k = Inr d \<longrightarrow>
          d = min (base_delay cfg * exponential_base cfg ^ k) (max_delay cfg)
          \<and> d \<le> max_delay cfg)
     \<and> (0 \<le> base_delay cfg \<and> 1 \<le> exponential_base cfg \<longrightarrow>
          (\<forall>k d d'. backoff_delay cfg k = Inr d \<and> backoff_delay cfg (Suc k) = Inr d' \<longrightarrow>
             d \<le> d'))
     \<and> (\<forall>k v. int k \<le> max_retries cfg
            \<and> (\<forall>j. j < k \<longrightarrow> (\<exists>e. func j = Inl e \<and> retryable e))
            \<and> func k = Inr v \<longrightarrow>
          retry_wrapper cfg retryable sleep func = (Inr v, retried cfg 0 k @ [Invoke k])
          \<and> length (filter is_invoke (snd (retry_wrapper cfg retryable sleep func))) =
              k + 1)"
proof -
  let ?n = "nat (max_retries cfg)"
  have always: "retry_wrapper cfg retryable sleep func =
          (Inl (Raised (projl (func ?n))), retried cfg 0 ?n @ [Invoke ?n])
        \<and> length (filter is_invoke (snd (retry_wrapper cfg retryable sleep func))) = ?n + 1"
    if fails: "\<forall>j. int j \<le> max_retries cfg \<longrightarrow> (\<exists>e. func j = Inl e \<and> retryable e)"
  proof -
    from fails assms(1) obtain e where e: "func ?n = Inl e"
      by (metis int_nat_eq order_refl)
    have "retry_wrapper cfg retryable sleep func =
            (Inl (Raised e), retried cfg 0 ?n @ [Invoke ?n])"
    proof (rule retry_loop_failure)
      show "\<forall>j. j < ?n \<longrightarrow> (\<exists>e. func j = Inl e \<and> retryable e)"
        using fails by auto
      show "\<forall>j. j < ?n \<longrightarrow> (\<exists>d. backoff_delay cfg j = Inr d \<and> sleep d = None)"
        using assms(2) by auto
      show "int ?n \<le> max_retries cfg" using assms(1) by simp
      show "func ?n = Inl e" by (rule e)
      show "\<not> retryable e \<or> int ?n = max_retries cfg" using assms(1) by simp
    qed
    then show ?thesis
      by (simp add: e invocations_retried)
  qed
  have success: "retry_wrapper cfg retryable sleep func =
            (Inr v, retried cfg 0 k @ [Invoke k])
          \<and> length (filter is_invoke (snd (retry_wrapper cfg retryable sleep func))) = k + 1"
    if "int k \<le> max_retries cfg
          \<and> (\<forall>j. j < k \<longrightarrow> (\<exists>e. func j = Inl e \<and> retryable e)) \<and> func k = Inr v"
    for k v
  proof -
    have "retry_wrapper cfg retryable sleep func = (Inr v, retried cfg 0 k @ [Invoke k])"
    proof (rule retry_loop_success)
      show "\<forall>j. j < k \<longrightarrow> (\<exists>e. func j = Inl e \<and> retryable e)"
        using that by blast
      show "\<forall>j. j < k \<longrightarrow> (\<exists>d. backoff_delay cfg j = Inr d \<and> sleep d = None)"
        using assms(2) that by auto
      show "int k \<le> max_retries cfg" using that by blast
      show "func k = Inr v" using that by blast
    qed
    then show ?thesis
      by (simp add: invocations_retried)
  qed
  show ?thesis
  proof (intro conjI impI allI)
    assume "\<forall>j. int j \<le> max_retries cfg \<longrightarrow> (\<exists>e. func j = Inl e \<and> retryable e)"
    then show "retry_wrapper cfg retryable sleep func =
          (Inl (Raised (projl (func ?n))), retried cfg 0 ?n @ [Invoke ?n])"
      and "length (filter is_invoke (snd (retry_wrapper cfg retryable sleep func))) = ?n + 1"
      using always by blast+
  next
    fix k d assume "backoff_delay cfg k = Inr d"
    then show "d = min (base_delay cfg * exponential_base cfg ^ k) (max_delay cfg)"
      and "d \<le> max_delay cfg"
      by (rule backoff_delay_value, rule backoff_delay_capped)
  next
    fix k d d'
    assume "0 \<le> base_delay cfg \<and> 1 \<le> exponential_base cfg"
      and "backoff_delay cfg k = Inr d \<and> backoff_delay cfg (Suc k) = Inr d'"
    then show "d \<le> d'"
      using backoff_delay_mono [of cfg k d d'] by blast
  next
    fix k v
    assume "int k \<le> max_retries cfg
          \<and> (\<forall>j. j < k \<longrightarrow> (\<exists>e. func j = Inl e \<and> retryable e)) \<and> func k = Inr v"
    then show "retry_wrapper cfg retryable sleep func = (Inr v, retried cfg 0 k @ [Invoke k])"
      and "length (filter is_invoke (snd (retry_wrapper cfg retryable sleep func))) = k + 1"
      using success by blast+
  qed
qed

text \<open>
  The witness takes for \<^verbatim>\<open>time.sleep\<close> a function that rejects negative delays and accepts
  all others.
\<close>

theorem retry_with_backoff_contract_witness:
  "retry_wrapper \<lparr>max_retries = 3, base_delay = 1, max_delay = 60, exponential_base = 2\<rparr>
     (\<lambda>e. True)
     (\<lambda>d. if d < 0 then Some (ValueError ''sleep length must be non-negative'') else None)
     (\<lambda>k. Inl (''timeout'', k) :: (string \<times> nat) + int) =
     (Inl (Raised (''timeout'', 3)),
      [Invoke 0, Sleep 1, Invoke 1, Sleep 2, Invoke 2, Sleep 4, Invoke 3])
   \<and> length (filter is_invoke
       (snd (retry_wrapper
               \<lparr>max_retries = 3, base_delay = 1, max_delay = 60, exponential_base = 2\<rparr>
               (\<lambda>e. True)
               (\<lambda>d. if d < 0 then Some (ValueError ''sleep length must be non-negative'')
                     else None)
               (\<lambda>k. Inl (''timeout'', k) :: (string \<times> nat) + int)))) = 4
   \<and> backoff_delay \<lparr>max_retries = 3, base_delay = 1, max_delay = 60, exponential_base = 2\<rparr> 2
       = Inr 4
   \<and> backoff_delay \<lparr>max_retries = 3, base_delay = 1, max_delay = 60, exponential_base = 2\<rparr> 8
       = Inr 60
   \<and> retry_wrapper \<lparr>max_retries = 3, base_delay = 1, max_delay = 60, exponential_base = 2\<rparr>
       (\<lambda>e. True)
       (\<lambda>d. if d < 0 then Some (ValueError ''sleep length must be non-negative'') else None)
       (\<lambda>k. if k < 2 then Inl (''timeout'', k) else Inr (42::int)) =
       (Inr 42, [Invoke 0, Sleep 1, Invoke 1, Sleep 2, Invoke 2])"
proof -
  let ?cfg = "\<lparr>max_retries = 3, base_delay = 1, max_delay = 60, exponential_base = 2\<rparr>"
  let ?fail = "\<lambda>k::nat. Inl (''timeout'', k) :: (string \<times> nat) + int"
  let ?ok = "\<lambda>k::nat. if k < 2 then Inl (''timeout'', k) else Inr (42::int)"
  let ?any = "\<lambda>e::string \<times> nat. True"
  let ?sleep = "\<lambda>d::real. if d < 0 then Some (ValueError ''sleep length must be non-negative'')
                          else None"
  have retries: "0 \<le> max_retries ?cfg"
    by simp
  have delays: "backoff_delay ?cfg 0 = Inr 1" "backoff_delay ?cfg 1 = Inr 2"
    "backoff_delay ?cfg 2 = Inr 4" "backoff_delay ?cfg 8 = Inr 60"
    by (simp_all add: backoff_delay_def float_pow_def float_overflow_def)
  have sleeps: "\<forall>j. int j < max_retries ?cfg \<longrightarrow>
                  (\<exists>d. backoff_delay ?cfg j = Inr d \<and> ?sleep d = None)"
  proof (intro allI impI)
    fix j :: nat
    assume "int j < max_retries ?cfg"
    then consider "j = 0" | "j = 1" | "j = 2"
      by fastforce
    then show "\<exists>d. backoff_delay ?cfg j = Inr d \<and> ?sleep d = None"
    proof cases
      case 1
      with delays(1) show ?thesis by (intro exI [of _ 1]) simp
    next
      case 2
      with delays(2) show ?thesis by (intro exI [of _ 2]) simp
    next
      case 3
      with delays(3) show ?thesis by (intro exI [of _ 4]) simp
    qed
  qed
  have events:
    "retried ?cfg 0 3 = [Invoke 0, Sleep 1, Invoke 1, Sleep 2, Invoke 2, Sleep 4]"
    "retried ?cfg 0 2 = [Invoke 0, Sleep 1, Invoke 1, Sleep 2]"
    by (simp_all add: retried_def upt_rec)
  note contract = retry_with_backoff_contract [OF retries sleeps]
  have always: "retry_wrapper ?cfg ?any ?sleep ?fail =
      (Inl (Raised (''timeout'', 3)),
       [Invoke 0, Sleep 1, Invoke 1, Sleep 2, Invoke 2, Sleep 4, Invoke 3])
     \<and> length (filter is_invoke (snd (retry_wrapper ?cfg ?any ?sleep ?fail))) = 4"
    using contract [where func = ?fail and retryable = ?any, THEN conjunct1]
    by (simp add: events)
  have success: "retry_wrapper ?cfg ?any ?sleep ?ok =
      (Inr 42, [Invoke 0, Sleep 1, Invoke 1, Sleep 2, Invoke 2])"
    using contract [where func = ?ok and retryable = ?any, THEN conjunct2, THEN conjunct2,
                    THEN conjunct2, THEN spec, THEN spec, of 2 42]
    by (simp add: events)
  from always delays(3) delays(4) success show ?thesis
    by blast
qed

text \<open>
  C5 as stated fails. First and second conjunct: with \<open>exponential_base = 1/2\<close> (and the
  other parameters at their defaults) the wrapper sleeps 1, then 1/2, then 1/4 seconds:
  the delays decrease. Third conjunct: with \<open>exponential_base = 2 ^ 600\<close>, a double, the
  power of the third attempt is beyond the doubles; the \<^verbatim>\<open>OverflowError\<close> it raises ends
  the loop after three invocations instead of four, and it is this error that leaves the
  wrapper, not the one the function raised.
\<close>

theorem retry_with_backoff_counterexample:
  "retry_wrapper \<lparr>max_retries = 3, base_delay = 1, max_delay = 60, exponential_base = 1/2\<rparr>
     (\<lambda>e. True)
     (\<lambda>d. if d < 0 then Some (ValueError ''sleep length must be non-negative'') else None)
     (\<lambda>k. Inl (''timeout'', k) :: (string \<times> nat) + int) =
     (Inl (Raised (''timeout'', 3)),
      [Invoke 0, Sleep 1, Invoke 1, Sleep (1/2), Invoke 2, Sleep (1/4), Invoke 3])
   \<and> projr (backoff_delay
        \<lparr>max_retries = 3, base_delay = 1, max_delay = 60, exponential_base = 1/2\<rparr> 1)
     < projr (backoff_delay
        \<lparr>max_retries = 3, base_delay = 1, max_delay = 60, exponential_base = 1/2\<rparr> 0)
   \<and> retry_wrapper
       \<lparr>max_retries = 3, base_delay = 1, max_delay = 60, exponential_base = 2 ^ 600\<rparr>
       (\<lambda>e. True)
       (\<lambda>d. if d < 0 then Some (ValueError ''sleep length must be non-negative'') else None)
       (\<lambda>k. Inl (''timeout'', k) :: (string \<times> nat) + int) =
       (Inl (Internal (OverflowError ''Numerical result out of range'')),
        [Invoke 0, Sleep 1, Invoke 1, Sleep 60, Invoke 2])"
proof -
  have range: "[0..<4] = [0, 1, 2, 3::nat]"
    by (simp add: upt_rec)
  have small: "backoff_delay
        \<lparr>max_retries = 3, base_delay = 1, max_delay = 60, exponential_base = 1/2\<rparr> k =
        Inr (min ((1/2) ^ k) 60)" for k
  proof -
    have "\<bar>(1/2::real) ^ k\<bar> \<le> 1"
      by (simp add: power_le_one)
    then show ?thesis
      by (simp add: backoff_delay_def float_pow_def float_overflow_def)
  qed
  have big: "backoff_delay
        \<lparr>max_retries = 3, base_delay = 1, max_delay = 60, exponential_base = 2 ^ 600\<rparr> 0 =
        Inr 1"
      "backoff_delay
        \<lparr>max_retries = 3, base_delay = 1, max_delay = 60, exponential_base = 2 ^ 600\<rparr>
        (Suc 0) = Inr 60"
      "backoff_delay
        \<lparr>max_retries = 3, base_delay = 1, max_delay = 60, exponential_base = 2 ^ 600\<rparr> 2 =
        Inl (OverflowError ''Numerical result out of range'')"
    by (simp_all add: backoff_delay_def float_pow_def float_overflow_def)
  have decreasing:
    "retry_wrapper \<lparr>max_retries = 3, base_delay = 1, max_delay = 60, exponential_base = 1/2\<rparr>
       (\<lambda>e. True)
       (\<lambda>d. if d < 0 then Some (ValueError ''sleep length must be non-negative'') else None)
       (\<lambda>k. Inl (''timeout'', k) :: (string \<times> nat) + int) =
       (Inl (Raised (''timeout'', 3)),
        [Invoke 0, Sleep 1, Invoke 1, Sleep (1/2), Invoke 2, Sleep (1/4), Invoke 3])"
    unfolding retry_wrapper_def
    by (simp add: range small power2_eq_square)
  have smaller: "projr (backoff_delay
        \<lparr>max_retries = 3, base_delay = 1, max_delay = 60, exponential_base = 1/2\<rparr> 1)
     < projr (backoff_delay
        \<lparr>max_retries = 3, base_delay = 1, max_delay = 60, exponential_base = 1/2\<rparr> 0)"
    by (simp add: small)
  have overflow:
    "retry_wrapper
       \<lparr>max_retries = 3, base_delay = 1, max_delay = 60, exponential_base = 2 ^ 600\<rparr>
       (\<lambda>e. True)
       (\<lambda>d. if d < 0 then Some (ValueError ''sleep length must be non-negative'') else None)
       (\<lambda>k. Inl (''timeout'', k) :: (string \<times> nat) + int) =
       (Inl (Internal (OverflowError ''Numerical result out of range'')),
        [Invoke 0, Sleep 1, Invoke 1, Sleep 60, Invoke 2])"
    unfolding retry_wrapper_def
    by (simp add: range big del: power_numeral)
  from decreasing smaller overflow show ?thesis
    by (intro conjI)
qed

section \<open>Properties of output limiting and compression\<close>

text \<open>
  C9 (amended). \<open>limit_output\<close> is total (it has no failing branch). For a non-negative
  \<open>max_output_size_mb\<close> the budget is counted in characters (code points), not in bytes:
  a text of more than \<open>max_output_size_mb * 1024 * 1024\<close> characters is cut to that many
  characters and followed by a marker giving the number of characters dropped; any other
  text is returned unchanged, whatever its size in bytes.
\<close>

theorem limit_output_contract:
  "0 \<le> max_output_size_mb limits \<longrightarrow>
     (max_output_size_mb limits * 1024 * 1024 < int (length output) \<longrightarrow>
        limit_output limits output =
          take (nat (max_output_size_mb limits * 1024 * 1024)) output
            @ ascii ([CHR 0x0A] @ ''... [truncated ''
                     @ str_int (int (length (drop (nat (max_output_size_mb limits * 1024 * 1024))
                                               output)))
                     @ '' chars]''))
     \<and> (int (length output) \<le> max_output_size_mb limits * 1024 * 1024 \<longrightarrow>
          limit_output limits output = output)"
proof (intro impI conjI)
  assume mb: "0 \<le> max_output_size_mb limits"
    and long: "max_output_size_mb limits * 1024 * 1024 < int (length output)"
  have "int (length (drop (nat (max_output_size_mb limits * 1024 * 1024)) output)) =
          int (length output) - max_output_size_mb limits * 1024 * 1024"
    using mb long by simp
  then show "limit_output limits output =
          take (nat (max_output_size_mb limits * 1024 * 1024)) output
            @ ascii ([CHR 0x0A] @ ''... [truncated ''
                     @ str_int (int (length (drop (nat (max_output_size_mb limits * 1024 * 1024))
                                               output)))
                     @ '' chars]'')"
    using mb long by (simp add: limit_output_def py_slice_to_def Let_def)
next
  assume "int (length output) \<le> max_output_size_mb limits * 1024 * 1024"
  then show "limit_output limits output = output"
    by (simp add: limit_output_def Let_def)
qed

theorem limit_output_contract_witness:
  "limit_output \<lparr>max_memory_mb = 4096, max_cpu_seconds = 300, max_file_size_mb = 100,
                 max_output_size_mb = 0\<rparr> [104, 105, 8364] =
     ascii ([CHR 0x0A] @ ''... [truncated 3 chars]'')
   \<and> limit_output \<lparr>max_memory_mb = 4096, max_cpu_seconds = 300, max_file_size_mb = 100,
                   max_output_size_mb = 10\<rparr> [104, 105, 8364] = [104, 105, 8364]"
proof -
  have three: "str_int 3 = ''3''"
    by code_simp
  have cut: "limit_output \<lparr>max_memory_mb = 4096, max_cpu_seconds = 300,
                           max_file_size_mb = 100, max_output_size_mb = 0\<rparr>
               [104, 105, 8364] =
             ascii ([CHR 0x0A] @ ''... [truncated 3 chars]'')"
    using limit_output_contract
            [of "\<lparr>max_memory_mb = 4096, max_cpu_seconds = 300,
                  max_file_size_mb = 100, max_output_size_mb = 0\<rparr>" "[104, 105, 8364]"]
    by (simp add: three)
  have keep: "limit_output \<lparr>max_memory_mb = 4096, max_cpu_seconds = 300,
                            max_file_size_mb = 100, max_output_size_mb = 10\<rparr>
                [104, 105, 8364] = [104, 105, 8364]"
    using limit_output_contract
            [of "\<lparr>max_memory_mb = 4096, max_cpu_seconds = 300,
                  max_file_size_mb = 100, max_output_size_mb = 10\<rparr>" "[104, 105, 8364]"]
    by simp
  from cut keep show ?thesis
    by (rule conjI)
qed

text \<open>
  C9 as stated fails: with \<open>max_output_size_mb = 1\<close>, a text of 600000 euro signs
  (code point 8364, three bytes each in UTF-8, and at least two bytes each in any encoding)
  occupies 1800000 bytes, more than the budget of 1048576 bytes, and is returned
  unchanged, because it has fewer than 1048576 characters.
\<close>

theorem limit_output_counterexample:
  "str_encode (replicate 600000 8364) = Inr (concat (replicate 600000 [226, 130, 172]))
   \<and> 1 * 1024 * 1024 < int (length (concat (replicate 600000 [226, 130, 172::nat])))
   \<and> limit_output \<lparr>max_memory_mb = 4096, max_cpu_seconds = 300, max_file_size_mb = 100,
                   max_output_size_mb = 1\<rparr> (replicate 600000 8364) = replicate 600000 8364"
proof -
  have "utf8_encode_char 8364 = Some [226, 130, 172]"
    by (simp add: utf8_encode_char_def)
  then have "utf8_encode (replicate 600000 8364) =
               Some (concat (replicate 600000 [226, 130, 172]))"
    by (rule utf8_encode_replicate)
  then have encoded: "str_encode (replicate 600000 8364) =
                        Inr (concat (replicate 600000 [226, 130, 172]))"
    by (simp add: str_encode_def)
  have size: "1 * 1024 * 1024 < int (length (concat (replicate 600000 [226, 130, 172::nat])))"
    by (simp add: length_concat sum_list_replicate)
  have unchanged:
    "limit_output \<lparr>max_memory_mb = 4096, max_cpu_seconds = 300, max_file_size_mb = 100,
                   max_output_size_mb = 1\<rparr> (replicate 600000 8364) = replicate 600000 8364"
    by (simp add: limit_output_def)
  from encoded size unchanged show ?thesis
    by (intro conjI)
qed

text \<open>
  C10 (amended). Let \<open>gunz\<close> undo \<open>gz\<close> (the property of the gzip library) and let \<open>s\<close> be a
  string that UTF-8 can encode, that is, one without surrogate code points. Then
  \<open>compress_response\<close> returns data from which \<open>decompress_response\<close> restores \<open>s\<close>, and for
  every threshold \<open>compress_if_large\<close> returns a pair from which \<open>decompress_if_needed\<close>
  restores \<open>s\<close>.
\<close>

theorem compression_round_trip:
  assumes "\<forall>b. gunz (gz b) = Inr b" and "encodable s"
  shows "(\<exists>data. compress_response gz s = Inr data
            \<and> decompress_response gunz data = Inr s)
         \<and> (\<exists>is_compressed data.
              compress_if_large gz s threshold = Inr (is_compressed, data)
              \<and> decompress_if_needed gunz is_compressed data = Inr s)"
proof -
  from assms(2) obtain b where "utf8_encode s = Some b"
    by (auto simp: encodable_iff)
  then have enc: "str_encode s = Inr b"
    by (simp add: str_encode_def)
  then have dec: "bytes_decode b = Inr s"
    by (rule bytes_decode_str_encode)
  have "compress_response gz s = Inr (gz b)"
    by (simp add: compress_response_def enc)
  moreover have "decompress_response gunz (gz b) = Inr s"
    using assms(1) by (simp add: decompress_response_def dec)
  moreover have "\<exists>is_compressed data.
      compress_if_large gz s threshold = Inr (is_compressed, data)
      \<and> decompress_if_needed gunz is_compressed data = Inr s"
    using assms(1)
    by (auto simp: compress_if_large_def decompress_if_needed_def enc dec Let_def)
  ultimately show ?thesis
    by blast
qed

text \<open>
  Two stand-ins for the gzip pair instantiate the theorem: one that only prepends the two
  magic bytes, and one that also shortens a run of zero bytes to its length.
\<close>

theorem compression_round_trip_witness:
  "compress_response (\<lambda>b. 31 # 139 # b) [104, 105, 8364] =
     Inr [31, 139, 104, 105, 226, 130, 172]
   \<and> decompress_response
       (\<lambda>d. case d of
               x # y # b \<Rightarrow> if x = 31 \<and> y = 139 then Inr b else Inl BadGzipFile
             | _ \<Rightarrow> Inl BadGzipFile)
       [31, 139, 104, 105, 226, 130, 172] = Inr [104, 105, 8364]
   \<and> compress_if_large (\<lambda>b. 31 # 139 # b) [104, 105, 8364] 1000 =
       Inr (False, [104, 105, 226, 130, 172])
   \<and> decompress_if_needed
       (\<lambda>d. case d of
               x # y # b \<Rightarrow> if x = 31 \<and> y = 139 then Inr b else Inl BadGzipFile
             | _ \<Rightarrow> Inl BadGzipFile)
       False [104, 105, 226, 130, 172] = Inr [104, 105, 8364]
   \<and> compress_if_large
       (\<lambda>b. if b \<noteq> [] \<and> list_all (\<lambda>x. x = 0) b then [0, length b] else 1 # b)
       [0, 0, 0, 0] 3 = Inr (True, [0, 4])
   \<and> decompress_if_needed
       (\<lambda>d. case d of
               [] \<Rightarrow> Inl BadGzipFile
             | t # r \<Rightarrow>
                 if t = 0
                 then (case r of [n] \<Rightarrow> Inr (replicate n 0) | _ \<Rightarrow> Inl BadGzipFile)
                 else Inr r)
       True [0, 4] = Inr [0, 0, 0, 0]"
proof -
  let ?gz = "\<lambda>b::pybytes. 31 # 139 # b"
  let ?gunz = "\<lambda>d::pybytes. case d of
                  x # y # b \<Rightarrow> if x = 31 \<and> y = 139 then Inr b else Inl BadGzipFile
                | _ \<Rightarrow> Inl BadGzipFile"
  let ?gz' = "\<lambda>b::pybytes.
                if b \<noteq> [] \<and> list_all (\<lambda>x. x = 0) b then [0, length b] else 1 # b"
  let ?gunz' = "\<lambda>d::pybytes. case d of
                   [] \<Rightarrow> Inl BadGzipFile
                 | t # r \<Rightarrow>
                     if t = 0
                     then (case r of [n] \<Rightarrow> Inr (replicate n 0) | _ \<Rightarrow> Inl BadGzipFile)
                     else Inr r"
  have inverse: "\<forall>b. ?gunz (?gz b) = Inr b"
    by simp
  have inverse': "\<forall>b. ?gunz' (?gz' b) = Inr b"
  proof
    fix b :: pybytes
    show "?gunz' (?gz' b) = Inr b"
    proof (cases "b \<noteq> [] \<and> list_all (\<lambda>x. x = 0) b")
      case True
      then have "replicate (length b) 0 = b"
        by (intro replicate_length_same) (simp add: list_all_iff)
      with True show ?thesis by simp
    next
      case False
      then show ?thesis by auto
    qed
  qed
  have plain: "encodable [104, 105, 8364]" and zeros: "encodable [0, 0, 0, 0]"
    by (simp_all add: encodable_def)
  have enc: "str_encode [104, 105, 8364] = Inr [104, 105, 226, 130, 172]"
    "str_encode [0, 0, 0, 0] = Inr [0, 0, 0, 0]"
    by (simp_all add: str_encode_def utf8_encode_char_def)
  have c1: "compress_response ?gz [104, 105, 8364] = Inr [31, 139, 104, 105, 226, 130, 172]"
    by (simp add: compress_response_def enc)
  have c2: "compress_if_large ?gz [104, 105, 8364] 1000 =
              Inr (False, [104, 105, 226, 130, 172])"
    by (simp add: compress_if_large_def enc)
  have c3: "compress_if_large ?gz' [0, 0, 0, 0] 3 = Inr (True, [0, 4])"
    by (simp add: compress_if_large_def enc)
  from compression_round_trip
         [where gz = ?gz and gunz = ?gunz and s = "[104, 105, 8364]" and threshold = 1000,
          OF inverse plain] c1 c2
  have d1: "decompress_response ?gunz [31, 139, 104, 105, 226, 130, 172] =
              Inr [104, 105, 8364]"
    and d2: "decompress_if_needed ?gunz False [104, 105, 226, 130, 172] =
               Inr [104, 105, 8364]"
    by auto
  from compression_round_trip
         [where gz = ?gz' and gunz = ?gunz' and s = "[0, 0, 0, 0]" and threshold = 3,
          OF inverse' zeros] c3
  have d3: "decompress_if_needed ?gunz' True [0, 4] = Inr [0, 0, 0, 0]"
    by auto
  from c1 d1 c2 d2 c3 d3 show ?thesis
    by (intro conjI)
qed

text \<open>
  C10 as stated fails: a Python string may hold a lone surrogate (here the one-character
  string of code point \<open>0xD800\<close>); \<^verbatim>\<open>encode("utf-8")\<close> rejects it, so \<open>compress_response\<close>
  and \<open>compress_if_large\<close> raise \<^verbatim>\<open>UnicodeEncodeError\<close> and there is nothing to decompress.
\<close>

theorem compression_round_trip_counterexample:
  "compress_response (\<lambda>b. 31 # 139 # b) [0xD800] = Inl UnicodeEncodeError
   \<and> compress_if_large (\<lambda>b. 31 # 139 # b) [0xD800] 1000 = Inl UnicodeEncodeError"
  by (simp add: compress_response_def compress_if_large_def str_encode_def
        utf8_encode_char_def)

section \<open>Properties of memoization with TTL\<close>

lemma min_by_timestamp_minimal:
  "\<exists>entry \<in> set (best # rest).
      min_by_timestamp best rest = fst entry
      \<and> (\<forall>other \<in> set (best # rest). fst (snd entry) \<le> fst (snd other))"
proof (induction rest arbitrary: best)
  case Nil
  then show ?case by simp
next
  case (Cons e rest)
  let ?best = "if fst (snd e) < fst (snd best) then e else best"
  from Cons.IH [of ?best] obtain entry where entry: "entry \<in> set (?best # rest)"
    "min_by_timestamp ?best rest = fst entry"
    "\<forall>other \<in> set (?best # rest). fst (snd entry) \<le> fst (snd other)"
    by blast
  from entry(3) have "fst (snd entry) \<le> fst (snd ?best)"
    by simp
  then have "fst (snd entry) \<le> fst (snd best)" "fst (snd entry) \<le> fst (snd e)"
    by (auto split: if_splits)
  with entry show ?case
    by (intro bexI [of _ entry]) (auto split: if_splits)
qed

lemma oldest_key_minimal:
  assumes "cache \<noteq> []"
  shows "\<exists>entry \<in> set cache.
           oldest_key cache = Some (fst entry)
           \<and> (\<forall>other \<in> set cache. fst (snd entry) \<le> fst (snd other))"
proof -
  from assms obtain e rest where "cache = e # rest"
    by (cases cache) auto
  then show ?thesis
    using min_by_timestamp_minimal [of e rest] by (simp add: oldest_key_def)
qed

lemma length_dict_del_distinct:
  "distinct (map fst cache) \<Longrightarrow> key \<in> fst ` set cache \<Longrightarrow>
     Suc (length (dict_del cache key)) = length cache"
proof (induction cache)
  case Nil
  then show ?case by simp
next
  case (Cons e cache)
  show ?case
  proof (cases "fst e = key")
    case True
    with Cons.prems have "key \<notin> fst ` set cache" by auto
    then have "filter (\<lambda>entry. fst entry \<noteq> key) cache = cache"
      by (intro filter_True) auto
    with True show ?thesis by (simp add: dict_del_def)
  next
    case False
    with Cons show ?thesis by (auto simp: dict_del_def)
  qed
qed

lemma length_dict_del_le: "length (dict_del cache key) \<le> length cache"
  by (simp add: dict_del_def)

lemma dict_del_absent: "key \<notin> fst ` set (dict_del cache key)"
  by (auto simp: dict_del_def)

lemma distinct_dict_del: "distinct (map fst cache) \<Longrightarrow> distinct (map fst (dict_del cache key))"
  by (simp add: dict_del_def distinct_map_filter)

lemma dict_set_fresh: "key \<notin> fst ` set cache \<Longrightarrow> dict_set cache key tv = cache @ [(key, tv)]"
  by (simp add: dict_set_def)

lemma map_of_absent: "map_of cache key = None \<Longrightarrow> key \<notin> fst ` set cache"
  by (simp add: map_of_eq_None_iff)

lemma dict_del_noop: "key \<notin> fst ` set cache \<Longrightarrow> dict_del cache key = cache"
  unfolding dict_del_def by (intro filter_True) auto

text \<open>The wrapper on a call that is not served from the cache.\<close>

lemma memo_wrapper_miss:
  assumes "key_of args = Inr key"
    and "\<not> (\<exists>ts v. map_of cache key = Some (ts, v) \<and> now - ts < ttl)"
  shows "memo_wrapper ttl maxsize key_of func cache False now args =
           (case func args of
              Waits \<Rightarrow> (Waits, dict_del cache key, True, True)
            | Raises e \<Rightarrow> (Raises (Raised e), dict_del cache key, False, True)
            | Returns v \<Rightarrow>
                if int (length (dict_del cache key)) \<ge> maxsize
                then (case oldest_key (dict_del cache key) of
                        None \<Rightarrow>
                          (Raises (Internal (ValueError ''min() arg is an empty sequence'')),
                           dict_del cache key, False, True)
                      | Some oldest \<Rightarrow>
                          (Returns v,
                           dict_del (dict_del cache key) oldest @ [(key, now, v)],
                           False, True))
                else (Returns v, dict_del cache key @ [(key, now, v)], False, True))"
proof (cases "map_of cache key")
  case None
  then have "dict_del cache key = cache"
    by (intro dict_del_noop map_of_absent)
  moreover have "key \<notin> fst ` set (dict_del cache k)" for k
    using map_of_absent [OF None] by (auto simp: dict_del_def)
  ultimately show ?thesis
    using None map_of_absent [OF None] assms(1)
    by (simp add: memo_wrapper_def Let_def dict_set_fresh
             split: outcome.splits option.splits)
next
  case (Some tv)
  obtain ts v where tv: "tv = (ts, v)" by (cases tv)
  with Some assms have expired: "\<not> now - ts < ttl" by simp
  have "key \<notin> fst ` set (dict_del (dict_del cache key) k)" for k
    by (auto simp: dict_del_def)
  then show ?thesis
    using Some tv expired dict_del_absent [of key cache] assms(1)
    by (simp add: memo_wrapper_def Let_def dict_set_fresh
             split: outcome.splits option.splits)
qed

text \<open>
  C6 (amended). For a cache with distinct keys, a call whose key derivation gives \<open>key\<close>,
  and the lock free:
  (1) if \<open>key\<close> is cached with age strictly below \<open>ttl_seconds\<close>, the call returns the cached
  value, does not invoke the function and leaves the cache as it is;
  (2) otherwise, for \<open>maxsize\<close> at least 1, if the function returns a value the call
  invokes it once, drops the expired entry of \<open>key\<close> if there is one, and then stores the
  new entry last: directly when fewer than \<open>maxsize\<close> entries remain, and otherwise after
  evicting exactly one entry, one whose timestamp is minimal; the lock is free again;
  (3) otherwise, if the function does not return because it waits for the lock of its own
  wrapper, the call does not return either and the lock stays held.
  Whatever the state of the lock: (4) a cache of at most \<open>maxsize\<close> entries has at most
  \<open>maxsize\<close> entries after the call, and (5) a call that finds the lock held waits, without
  invoking the function.
\<close>

theorem memoize_with_ttl_contract:
  assumes "distinct (map fst cache)" and "key_of args = Inr key"
  shows
    "(\<forall>ts v. map_of cache key = Some (ts, v) \<and> now - ts < ttl \<longrightarrow>
        memo_wrapper ttl maxsize key_of func cache False now args =
          (Returns v, cache, False, False))
     \<and> (\<forall>v'. 1 \<le> maxsize
          \<and> \<not> (\<exists>ts v. map_of cache key = Some (ts, v) \<and> now - ts < ttl)
          \<and> func args = Returns v' \<longrightarrow>
          (int (length (dict_del cache key)) < maxsize \<longrightarrow>
             memo_wrapper ttl maxsize key_of func cache False now args =
               (Returns v', dict_del cache key @ [(key, now, v')], False, True))
          \<and> (maxsize \<le> int (length (dict_del cache key)) \<longrightarrow>
               (\<exists>entry \<in> set (dict_del cache key).
                  (\<forall>other \<in> set (dict_del cache key).
                      fst (snd entry) \<le> fst (snd other))
                  \<and> memo_wrapper ttl maxsize key_of func cache False now args =
                      (Returns v',
                       dict_del (dict_del cache key) (fst entry) @ [(key, now, v')],
                       False, True)
                  \<and> Suc (length (dict_del (dict_del cache key) (fst entry))) =
                      length (dict_del cache key))))
     \<and> (\<not> (\<exists>ts v. map_of cache key = Some (ts, v) \<and> now - ts < ttl)
          \<and> func args = Waits \<longrightarrow>
          memo_wrapper ttl maxsize key_of func cache False now args =
            (Waits, dict_del cache key, True, True))
     \<and> (int (length cache) \<le> maxsize \<longrightarrow>
          int (length (fst (snd (memo_wrapper ttl maxsize key_of func cache locked now args))))
            \<le> maxsize)
     \<and> memo_wrapper ttl maxsize key_of func cache True now args = (Waits, cache, True, False)"
proof (intro conjI allI impI)
  fix ts v
  assume "map_of cache key = Some (ts, v) \<and> now - ts < ttl"
  then show "memo_wrapper ttl maxsize key_of func cache False now args =
               (Returns v, cache, False, False)"
    using assms(2) by (simp add: memo_wrapper_def)
next
  fix v'
  assume h: "1 \<le> maxsize
          \<and> \<not> (\<exists>ts v. map_of cache key = Some (ts, v) \<and> now - ts < ttl)
          \<and> func args = Returns v'"
    and room: "int (length (dict_del cache key)) < maxsize"
  then show "memo_wrapper ttl maxsize key_of func cache False now args =
               (Returns v', dict_del cache key @ [(key, now, v')], False, True)"
    using assms(2) by (simp add: memo_wrapper_miss)
next
  fix v'
  let ?cache1 = "dict_del cache key"
  assume h: "1 \<le> maxsize
          \<and> \<not> (\<exists>ts v. map_of cache key = Some (ts, v) \<and> now - ts < ttl)
          \<and> func args = Returns v'"
    and full: "maxsize \<le> int (length ?cache1)"
  then have "?cache1 \<noteq> []" by auto
  from oldest_key_minimal [OF this] obtain entry where entry: "entry \<in> set ?cache1"
    "oldest_key ?cache1 = Some (fst entry)"
    "\<forall>other \<in> set ?cache1. fst (snd entry) \<le> fst (snd other)"
    by blast
  have "distinct (map fst ?cache1)"
    using assms(1) by (rule distinct_dict_del)
  then have one: "Suc (length (dict_del ?cache1 (fst entry))) = length ?cache1"
    using entry(1) by (intro length_dict_del_distinct) auto
  have "memo_wrapper ttl maxsize key_of func cache False now args =
          (Returns v', dict_del ?cache1 (fst entry) @ [(key, now, v')], False, True)"
    using h full entry(2) assms(2) by (simp add: memo_wrapper_miss)
  with entry one
  show "\<exists>entry \<in> set ?cache1.
          (\<forall>other \<in> set ?cache1. fst (snd entry) \<le> fst (snd other))
          \<and> memo_wrapper ttl maxsize key_of func cache False now args =
              (Returns v', dict_del ?cache1 (fst entry) @ [(key, now, v')], False, True)
          \<and> Suc (length (dict_del ?cache1 (fst entry))) = length ?cache1"
    by blast
next
  assume "\<not> (\<exists>ts v. map_of cache key = Some (ts, v) \<and> now - ts < ttl)
          \<and> func args = Waits"
  then show "memo_wrapper ttl maxsize key_of func cache False now args =
               (Waits, dict_del cache key, True, True)"
    using assms(2) by (simp add: memo_wrapper_miss)
next
  let ?cache1 = "dict_del cache key"
  assume bound: "int (length cache) \<le> maxsize"
  show "int (length (fst (snd (memo_wrapper ttl maxsize key_of func cache locked now args))))
          \<le> maxsize"
  proof (cases locked)
    case True
    then show ?thesis
      using bound assms(2) by (simp add: memo_wrapper_def)
  next
    case free: False
    show ?thesis
    proof (cases "\<exists>ts v. map_of cache key = Some (ts, v) \<and> now - ts < ttl")
      case True
      then show ?thesis
        using bound assms(2) free by (auto simp: memo_wrapper_def)
    next
      case False
      have len1: "int (length ?cache1) \<le> maxsize"
        using bound length_dict_del_le [of cache key] by linarith
      have d1: "distinct (map fst ?cache1)"
        using assms(1) by (rule distinct_dict_del)
      have evict: "int (Suc (length (dict_del ?cache1 k))) \<le> maxsize"
        if "oldest_key ?cache1 = Some k" for k
      proof -
        from that have ne: "?cache1 \<noteq> []"
          by (auto simp: oldest_key_def)
        from oldest_key_minimal [OF ne] that have "k \<in> fst ` set ?cache1"
          by auto
        from length_dict_del_distinct [OF d1 this] len1 show ?thesis
          by simp
      qed
      from free have unlocked: "locked = False"
        by simp
      show ?thesis
        unfolding unlocked
          memo_wrapper_miss
            [where cache = cache and key_of = key_of and args = args and now = now
               and ttl = ttl and key = key, OF assms(2) False]
        using len1 evict by (auto split: outcome.splits option.splits)
    qed
  qed
next
  show "memo_wrapper ttl maxsize key_of func cache True now args = (Waits, cache, True, False)"
    using assms(2) by (simp add: memo_wrapper_def)
qed

theorem memoize_with_ttl_contract_witness:
  "memo_wrapper 300 2 (\<lambda>s. Inr s) (\<lambda>s. Returns (int (length s)) :: (string, int) outcome)
     [(''a'', 10, 1), (''b'', 5, 2)] False 20 ''a'' =
     (Returns 1, [(''a'', 10, 1), (''b'', 5, 2)], False, False)
   \<and> memo_wrapper 300 2 (\<lambda>s. Inr s) (\<lambda>s. Returns (int (length s)) :: (string, int) outcome)
       [(''a'', 10, 1)] False 1000 ''a'' =
       (Returns 1, [(''a'', 1000, 1)], False, True)
   \<and> memo_wrapper 300 2 (\<lambda>s. Inr s) (\<lambda>s. Returns (int (length s)) :: (string, int) outcome)
       [(''a'', 10, 1), (''b'', 5, 2)] False 20 ''ccc'' =
       (Returns 3, [(''a'', 10, 1), (''ccc'', 20, 3)], False, True)
   \<and> memo_wrapper 300 2 (\<lambda>s. Inr s) (\<lambda>s. Waits :: (string, int) outcome)
       [(''a'', 10, 1), (''b'', 5, 2)] False 20 ''a'' =
       (Returns 1, [(''a'', 10, 1), (''b'', 5, 2)], False, False)"
proof -
  let ?key = "\<lambda>s::string. Inr s :: string + string"
  let ?func = "\<lambda>s::string. Returns (int (length s)) :: (string, int) outcome"
  let ?rec = "\<lambda>s::string. Waits :: (string, int) outcome"
  let ?two = "[(''a'', 10, 1), (''b'', 5, 2)] :: int memo_cache"
  let ?one = "[(''a'', 10, 1)] :: int memo_cache"
  have keys: "distinct (map fst ?two)" "distinct (map fst ?one)"
    by simp_all
  have key: "?key s = Inr s" for s
    by simp
  have hit: "memo_wrapper 300 2 ?key ?func ?two False 20 ''a'' =
               (Returns 1, ?two, False, False)"
    using memoize_with_ttl_contract
            [where cache = ?two and key_of = ?key and func = ?func and args = "''a''"
               and now = 20 and ttl = 300 and maxsize = 2, OF keys(1) key, THEN conjunct1]
    by simp
  have expired: "memo_wrapper 300 2 ?key ?func ?one False 1000 ''a'' =
                   (Returns 1, [(''a'', 1000, 1)], False, True)"
    using memoize_with_ttl_contract
            [where cache = ?one and key_of = ?key and func = ?func and args = "''a''"
               and now = 1000 and ttl = 300 and maxsize = 2, OF keys(2) key,
             THEN conjunct2, THEN conjunct1, THEN spec, of 1]
    by (simp add: dict_del_def)
  have evict: "memo_wrapper 300 2 ?key ?func ?two False 20 ''ccc'' =
                 (Returns 3, [(''a'', 10, 1), (''ccc'', 20, 3)], False, True)"
    using memoize_with_ttl_contract
            [where cache = ?two and key_of = ?key and func = ?func and args = "''ccc''"
               and now = 20 and ttl = 300 and maxsize = 2, OF keys(1) key,
             THEN conjunct2, THEN conjunct1, THEN spec, of 3]
    by (auto simp: dict_del_def)
  have served: "memo_wrapper 300 2 ?key ?rec ?two False 20 ''a'' =
                  (Returns 1, ?two, False, False)"
    using memoize_with_ttl_contract
            [where cache = ?two and key_of = ?key and func = ?rec and args = "''a''"
               and now = 20 and ttl = 300 and maxsize = 2, OF keys(1) key, THEN conjunct1]
    by simp
  from hit expired evict served show ?thesis
    by (intro conjI)
qed

text \<open>
  C6 as stated fails. First conjunct: with \<open>maxsize = 0\<close> a call on the empty cache invokes
  the function, finds the cache ``full'' and asks for the oldest entry of an empty
  dictionary: the call raises \<^verbatim>\<open>ValueError\<close>, no entry is evicted and the new entry is not
  stored. Second conjunct: for a wrapped function that calls its own wrapper before it
  returns (a recursive function), a call whose entry has expired deletes the entry and
  invokes the function, which then waits for the lock that the call holds: nothing is
  recomputed, the call does not return and the lock stays held. Third conjunct: from
  then on every call waits, even one whose value is cached and fresh.
\<close>

theorem memoize_with_ttl_counterexample:
  "memo_wrapper 300 0 (\<lambda>s. Inr s) (\<lambda>s. Returns (int (length s)) :: (string, int) outcome)
     [] False 20 ''a'' =
     (Raises (Internal (ValueError ''min() arg is an empty sequence'')), [], False, True)
   \<and> memo_wrapper 300 2 (\<lambda>s. Inr s) (\<lambda>s. Waits :: (string, int) outcome)
       [(''a'', 10, 1), (''b'', 900, 2)] False 1000 ''a'' =
       (Waits, [(''b'', 900, 2)], True, True)
   \<and> memo_wrapper 300 2 (\<lambda>s. Inr s) (\<lambda>s. Waits :: (string, int) outcome)
       [(''b'', 900, 2)] True 1001 ''b'' =
       (Waits, [(''b'', 900, 2)], True, False)"
  by (simp add: memo_wrapper_def oldest_key_def dict_del_def)

section \<open>Properties of the response cache\<close>




text \<open>The primary key stays a key under every statement the cache issues.\<close>

lemma distinct_filter_key: "distinct (map f xs) \<Longrightarrow> distinct (map f (filter P xs))"
  by (rule distinct_map_filter)




















end
